theory Spec2Isabelle
  imports Main "HOL-Library.Multiset"
begin

section \<open>The task runner of driver/task\_runner.go\<close>

text \<open>
  A shallow embedding of \<^verbatim>\<open>src/driver/task_runner.go\<close>. The sequential code of
  \<^verbatim>\<open>Run\<close> and of the four wiring phases is a state-passing function over a
  record of the runner; every panic of the Go code is a value of \<open>error\<close>. The
  goroutines (stage units, forwarders, adapters) and the wait group are explicit
  transition systems driven by a schedule, so that a statement about every
  interleaving is a statement about every schedule.
\<close>

subsection \<open>Panics\<close>

text \<open>
  \<open>IndexOutOfRange i n\<close> is Go's runtime panic for reading index \<open>i\<close> of a slice of
  length \<open>n\<close>; \<open>LogPanic e\<close> is \<^verbatim>\<open>log.Panic(err)\<close> with the collaborator's error
  \<open>e\<close>; \<open>NilDereference\<close> is a read through a nil pointer.
\<close>

datatype error = IndexOutOfRange int nat | LogPanic string | NilDereference

subsection \<open>Strings: strings.Split and the \%d verb\<close>

text \<open>
  \<^verbatim>\<open>strings.Split(s, sep)\<close> for a one-byte separator, the only kind the source
  passes (\<^verbatim>\<open>","\<close> and \<^verbatim>\<open>"@"\<close>): the text up to the first separator, then the
  split of what follows it; a string with no separator is returned whole, as a
  one-element slice.
\<close>

function Split :: "string \<Rightarrow> char \<Rightarrow> string list" where
  "Split s sep =
     takeWhile (\<lambda>c. c \<noteq> sep) s #
       (case dropWhile (\<lambda>c. c \<noteq> sep) s of
          [] \<Rightarrow> []
        | _ # rest \<Rightarrow> Split rest sep)"
  by pat_completeness auto
termination
proof (relation "measure (\<lambda>(s, sep). length s)")
  show "wf (measure (\<lambda>(s, sep). length s))" by simp
next
  fix s :: string and sep x21 x22
  assume "dropWhile (\<lambda>c. c \<noteq> sep) s = x21 # x22"
  then have "length (x21 # x22) \<le> length s"
    by (metis length_dropWhile_le)
  then show "((x22, sep), (s, sep)) \<in> measure (\<lambda>(s, sep). length s)"
    by simp
qed

declare Split.simps [simp del]

text \<open>
  Reading \<^verbatim>\<open>xs[i]\<close> with a Go \<^verbatim>\<open>int\<close> index: a runtime panic when the index
  is negative or not below the length.
\<close>

definition index :: "'a list \<Rightarrow> int \<Rightarrow> error + 'a" where
  "index xs i =
     (if 0 \<le> i \<and> i < int (length xs) then Inr (xs ! nat i)
      else Inl (IndexOutOfRange i (length xs)))"

text \<open>
  Lines 75 to 82 of \<^verbatim>\<open>connectInputsAndOutputs\<close>: the loop over the comma-separated
  tokens. \<^verbatim>\<open>nl[1]\<close> panics when the token has no \<^verbatim>\<open>@\<close>. A later token with
  the same name overwrites the earlier entry.
\<close>

fun name2Location_loop :: "string list \<Rightarrow> (string \<rightharpoonup> string) \<Rightarrow> error + (string \<rightharpoonup> string)" where
  "name2Location_loop [] m = Inr m"
| "name2Location_loop (nameLocation # rest) m =
     (let nl = Split nameLocation CHR ''@'' in
      case index nl 0 of
        Inl e \<Rightarrow> Inl e
      | Inr k \<Rightarrow>
         (case index nl 1 of
            Inl e \<Rightarrow> Inl e
          | Inr v \<Rightarrow> name2Location_loop rest (m(k \<mapsto> v))))"

definition name2Location :: "string \<Rightarrow> error + (string \<rightharpoonup> string)" where
  "name2Location inputs =
     (if inputs \<noteq> [] then name2Location_loop (Split inputs CHR '','') Map.empty
      else Inr Map.empty)"

text \<open>A Go map read: the zero value, the empty string, for a missing key.\<close>

definition lookup :: "(string \<rightharpoonup> string) \<Rightarrow> string \<Rightarrow> string" where
  "lookup m k = (case m k of None \<Rightarrow> [] | Some v \<Rightarrow> v)"

text \<open>
  The verb \<^verbatim>\<open>%d\<close> of \<^verbatim>\<open>fmt.Sprintf\<close>: decimal digits, most significant first, with
  a minus sign for a negative number.
\<close>

definition digit :: "nat \<Rightarrow> char" where
  "digit n = ''0123456789'' ! n"

function decimal :: "nat \<Rightarrow> string" where
  "decimal n = (if n < 10 then [digit n] else decimal (n div 10) @ [digit (n mod 10)])"
  by pat_completeness auto
termination
  by (relation "measure (\<lambda>n. n)") auto

declare decimal.simps [simp del]

definition Sprintf_d :: "int \<Rightarrow> string" where
  "Sprintf_d i = (if i < 0 then CHR ''-'' # decimal (nat (- i)) else decimal (nat i))"

subsection \<open>The data of the runner\<close>

text \<open>
  Channels and types are opaque to the runner: a raw channel and a declared typed channel
  are handles, \<open>MadeChan i\<close> is the channel that \<^verbatim>\<open>make(chan reflect.Value)\<close> creates in
  iteration \<open>i\<close> of the external-input-channel phase, and a \<^verbatim>\<open>reflect.Type\<close> is its name.
  \<open>ChannelStatus n\<close> is the \<^verbatim>\<open>*util.ChannelStatus\<close> allocated by the adapter that is
  event \<open>n\<close> of the trace, so two adapters never share a status.
\<close>

type_synonym rawChan = nat
datatype typedChan = Chan nat | MadeChan nat
type_synonym reflType = string
datatype ChannelStatus = ChannelStatus nat

record Dataset =
  ds_Id :: int
  ds_Type :: reflType
  ExternalInputChans :: "typedChan list"

text \<open>\<open>Name\<close> is what \<^verbatim>\<open>shard.Name()\<close> returns.\<close>

record DatasetShard =
  Name :: string
  Parent :: Dataset
  WriteChan :: typedChan

text \<open>
  \<^verbatim>\<open>Inputs\<close> is a Go slice that the source compares with \<^verbatim>\<open>nil\<close>: \<open>None\<close> is the
  nil slice, \<open>Some []\<close> an empty slice that is not nil. Both have length 0 and
  neither is iterated over; \<open>elems\<close> gives the elements of either.
\<close>

record Task =
  Inputs :: "DatasetShard list option"
  Outputs :: "DatasetShard list"
  InputChans :: "typedChan list"

definition elems :: "'a list option \<Rightarrow> 'a list" where
  "elems s = (case s of None \<Rightarrow> [] | Some xs \<Rightarrow> xs)"

record TaskOption =
  ContextId :: int
  TaskGroupId :: int
  ExecutableFileHash :: string
  option_Inputs :: string
  ChannelBufferSize :: int

record FlowContext =
  fc_Id :: int
  fc_ChannelBufferSize :: int

record ExecutorStatus =
  InputChannelStatuses :: "ChannelStatus list"
  OutputChannelStatus :: "ChannelStatus option"
  ReadyTime :: nat
  StartTime :: nat
  StopTime :: nat

record TaskRunner =
  option :: TaskOption
  Tasks :: "Task list"
  FlowContext :: "FlowContext option"
  executorStatus :: ExecutorStatus

definition NewTaskRunner :: "TaskOption \<Rightarrow> TaskRunner" where
  "NewTaskRunner opt =
     \<lparr>option = opt, Tasks = [], FlowContext = None,
      executorStatus = \<lparr>InputChannelStatuses = [], OutputChannelStatus = None,
                        ReadyTime = 0, StartTime = 0, StopTime = 0\<rparr>\<rparr>"

definition IsTaskMode :: "TaskRunner \<Rightarrow> bool" where
  "IsTaskMode tr \<longleftrightarrow> TaskGroupId (option tr) \<ge> 0 \<and> ContextId (option tr) \<ge> 0"

subsection \<open>Collaborators, goroutines and the trace\<close>

text \<open>
  Modelled from the spec: the transport collaborator's resolution calls
  (\<^verbatim>\<open>netchan.GetDirectReadChannel\<close>, \<^verbatim>\<open>GetLocalReadChannel\<close>, \<^verbatim>\<open>GetLocalSendChannel\<close>),
  each returning a raw channel or an error, and the planner's \<^verbatim>\<open>plan.GroupTasks\<close>,
  returning the task groups of a context, each group as its ordered tasks. They are
  parameters of the model. \<^verbatim>\<open>GetLocalSendChannel\<close> is also handed the wait group; what
  the transport registers there for itself is the collaborator's business and is not a
  unit of this model.
\<close>

record env =
  GetDirectReadChannel :: "string \<Rightarrow> string \<Rightarrow> int \<Rightarrow> string + rawChan"
  GetLocalReadChannel :: "string \<Rightarrow> int \<Rightarrow> string + rawChan"
  GetLocalSendChannel :: "string \<Rightarrow> string + rawChan"
  GroupTasks :: "FlowContext \<Rightarrow> Task list list"

text \<open>
  The concurrent units registered with the wait group: the forwarder of lines 99 to 109
  with its two shards and its index, the decoding and encoding adapters that the
  collaborator spawns, and the stage unit of lines 63 to 66.
\<close>

datatype goroutine =
    Forwarder DatasetShard DatasetShard nat
  | DecodeAdapter rawChan typedChan reflType
  | EncodeAdapter typedChan rawChan
  | Stage Task

text \<open>
  What the main thread does to the outside, in order: the calls to the collaborators with
  their arguments, the channels it makes, and the units it registers and starts.
\<close>

datatype event =
    Call_GroupTasks
  | Call_GetDirectReadChannel string string int
  | Call_GetLocalReadChannel string int
  | Call_GetLocalSendChannel string
  | Call_make_chan typedChan
  | Call_SetupReadingChans DatasetShard
  | Spawn goroutine

record world =
  tr :: TaskRunner
  trace :: "event list"

definition emit :: "event \<Rightarrow> world \<Rightarrow> world" where
  "emit e w = w\<lparr>trace := trace w @ [e]\<rparr>"

text \<open>
  Modelled from the spec: the adapters \<^verbatim>\<open>netchan.ConnectRawReadChannelToTyped\<close> and
  \<^verbatim>\<open>netchan.ConnectTypedWriteChannelToRaw\<close> spawn a background loop registered with
  the completion tracker and return its status handle.
\<close>

definition ConnectRawReadChannelToTyped ::
    "rawChan \<Rightarrow> typedChan \<Rightarrow> reflType \<Rightarrow> world \<Rightarrow> ChannelStatus \<times> world" where
  "ConnectRawReadChannelToTyped rawChan typedChan t w =
     (ChannelStatus (length (trace w)), emit (Spawn (DecodeAdapter rawChan typedChan t)) w)"

definition ConnectTypedWriteChannelToRaw ::
    "typedChan \<Rightarrow> rawChan \<Rightarrow> world \<Rightarrow> ChannelStatus \<times> world" where
  "ConnectTypedWriteChannelToRaw typedChan rawChan w =
     (ChannelStatus (length (trace w)), emit (Spawn (EncodeAdapter typedChan rawChan)) w)"

definition append_InputChannelStatus :: "ChannelStatus \<Rightarrow> world \<Rightarrow> world" where
  "append_InputChannelStatus st w =
     w\<lparr>tr := (tr w)\<lparr>executorStatus := (executorStatus (tr w))
        \<lparr>InputChannelStatuses := InputChannelStatuses (executorStatus (tr w)) @ [st]\<rparr>\<rparr>\<rparr>"

definition set_OutputChannelStatus :: "ChannelStatus \<Rightarrow> world \<Rightarrow> world" where
  "set_OutputChannelStatus st w =
     w\<lparr>tr := (tr w)\<lparr>executorStatus := (executorStatus (tr w))
        \<lparr>OutputChannelStatus := Some st\<rparr>\<rparr>\<rparr>"

text \<open>
  \<^verbatim>\<open>firstTask.InputChans = append(firstTask.InputChans, c)\<close>, where \<^verbatim>\<open>firstTask\<close> points
  to \<^verbatim>\<open>tr.Tasks[0]\<close>.
\<close>

definition append_InputChan :: "typedChan \<Rightarrow> world \<Rightarrow> world" where
  "append_InputChan c w =
     w\<lparr>tr := (tr w)\<lparr>Tasks := (case Tasks (tr w) of
          [] \<Rightarrow> []
        | t # ts \<Rightarrow> t\<lparr>InputChans := InputChans t @ [c]\<rparr> # ts)\<rparr>\<rparr>"

text \<open>
  A \<^verbatim>\<open>for ... range xs\<close> loop whose body may panic: the body runs on each element in
  order, and the first panic ends the loop with the state reached so far.
\<close>

fun for_range :: "('a \<Rightarrow> 's \<Rightarrow> error option \<times> 's) \<Rightarrow> 'a list \<Rightarrow> 's \<Rightarrow> error option \<times> 's" where
  "for_range body [] w = (None, w)"
| "for_range body (x # xs) w =
     (case body x w of
        (Some e, w') \<Rightarrow> (Some e, w')
      | (None, w') \<Rightarrow> for_range body xs w')"

text \<open>Sequencing two steps of the main thread: a panic skips what follows.\<close>

definition and_then ::
    "error option \<times> 's \<Rightarrow> ('s \<Rightarrow> error option \<times> 's) \<Rightarrow> error option \<times> 's" where
  "and_then r f = (case r of (Some e, w) \<Rightarrow> (Some e, w) | (None, w) \<Rightarrow> f w)"

text \<open>
  \<^verbatim>\<open>tr.FlowContext.ChannelBufferSize\<close>: \<^verbatim>\<open>tr.FlowContext\<close> is a pointer, nil until
  \<^verbatim>\<open>Run\<close> sets it.
\<close>

definition bufferSize :: "world \<Rightarrow> error + int" where
  "bufferSize w =
     (case FlowContext (tr w) of None \<Rightarrow> Inl NilDereference | Some fc \<Rightarrow> Inr (fc_ChannelBufferSize fc))"

subsection \<open>The four wiring phases\<close>

text \<open>Lines 128 to 146, \<^verbatim>\<open>connectExternalInputChannels\<close>: the loop body and the function.\<close>

definition inputChanName :: "TaskOption \<Rightarrow> Dataset \<Rightarrow> nat \<Rightarrow> string" where
  "inputChanName opt ds i =
     ExecutableFileHash opt @ ''-ct-'' @ Sprintf_d (ContextId opt) @ ''-input-'' @
       Sprintf_d (ds_Id ds) @ ''-p-'' @ Sprintf_d (int i)"

definition connectExternalInputChannels_body ::
    "env \<Rightarrow> Dataset \<Rightarrow> nat \<times> typedChan \<Rightarrow> world \<Rightarrow> error option \<times> world" where
  "connectExternalInputChannels_body E ds ic w =
     (let i = fst ic;
          name = inputChanName (option (tr w)) ds i in
      case bufferSize w of
        Inl e \<Rightarrow> (Some e, w)
      | Inr bufSize \<Rightarrow>
         (let w1 = emit (Call_GetLocalReadChannel name bufSize) w in
          case GetLocalReadChannel E name bufSize of
            Inl err \<Rightarrow> (Some (LogPanic err), w1)
          | Inr rawChan \<Rightarrow>
             (let typedInputChan = MadeChan i;
                  w2 = emit (Call_make_chan typedInputChan) w1;
                  (inChanStatus, w3) = ConnectRawReadChannelToTyped rawChan typedInputChan (ds_Type ds) w2;
                  w4 = append_InputChannelStatus inChanStatus w3
              in (None, append_InputChan typedInputChan w4))))"

definition connectExternalInputChannels :: "env \<Rightarrow> world \<Rightarrow> error option \<times> world" where
  "connectExternalInputChannels E w =
     (case index (Tasks (tr w)) 0 of
        Inl e \<Rightarrow> (Some e, w)
      | Inr firstTask \<Rightarrow>
         if Inputs firstTask \<noteq> None then (None, w)
         else
           (case index (Outputs firstTask) 0 of
              Inl e \<Rightarrow> (Some e, w)
            | Inr shard \<Rightarrow>
               (let ds = Parent shard in
                for_range (connectExternalInputChannels_body E ds)
                  (enumerate 0 (ExternalInputChans ds)) w)))"

text \<open>Lines 113 to 126, \<^verbatim>\<open>connectExternalInputs\<close>.\<close>

definition shardChanName :: "TaskOption \<Rightarrow> DatasetShard \<Rightarrow> string" where
  "shardChanName opt shard = ExecutableFileHash opt @ ''-'' @ Name shard"

definition connectExternalInputs_body ::
    "env \<Rightarrow> (string \<rightharpoonup> string) \<Rightarrow> Task \<Rightarrow> nat \<times> DatasetShard \<Rightarrow> world \<Rightarrow> error option \<times> world" where
  "connectExternalInputs_body E n2l firstTask ishard w =
     (let i = fst ishard;
          shard = snd ishard;
          d = Parent shard;
          readChanName = shardChanName (option (tr w)) shard in
      case bufferSize w of
        Inl e \<Rightarrow> (Some e, w)
      | Inr bufSize \<Rightarrow>
         (let w1 = emit (Call_GetDirectReadChannel readChanName (lookup n2l readChanName) bufSize) w in
          case GetDirectReadChannel E readChanName (lookup n2l readChanName) bufSize of
            Inl err \<Rightarrow> (Some (LogPanic err), w1)
          | Inr rawChan \<Rightarrow>
             (case index (InputChans firstTask) (int i) of
                Inl e \<Rightarrow> (Some e, w1)
              | Inr c \<Rightarrow>
                 (let (inChanStatus, w2) = ConnectRawReadChannelToTyped rawChan c (ds_Type d) w1
                  in (None, append_InputChannelStatus inChanStatus w2)))))"

definition connectExternalInputs :: "env \<Rightarrow> (string \<rightharpoonup> string) \<Rightarrow> world \<Rightarrow> error option \<times> world" where
  "connectExternalInputs E n2l w =
     (case index (Tasks (tr w)) 0 of
        Inl e \<Rightarrow> (Some e, w)
      | Inr firstTask \<Rightarrow>
         for_range (connectExternalInputs_body E n2l firstTask)
           (enumerate 0 (elems (Inputs firstTask))) w)"

text \<open>Lines 89 to 111, \<^verbatim>\<open>connectInternalInputsAndOutputs\<close>.\<close>

definition connectInternalInputsAndOutputs_body ::
    "nat \<times> Task \<Rightarrow> world \<Rightarrow> error option \<times> world" where
  "connectInternalInputsAndOutputs_body it w =
     (let i = fst it in
      if int i = int (length (Tasks (tr w))) - 1 then (None, w)
      else
        (case index (Tasks (tr w)) (int i) of
           Inl e \<Rightarrow> (Some e, w)
         | Inr ti \<Rightarrow>
            (case index (Outputs ti) 0 of
               Inl e \<Rightarrow> (Some e, w)
             | Inr currentShard \<Rightarrow>
                (case index (Tasks (tr w)) (int i + 1) of
                   Inl e \<Rightarrow> (Some e, w)
                 | Inr tn \<Rightarrow>
                    (case index (elems (Inputs tn)) 0 of
                       Inl e \<Rightarrow> (Some e, w)
                     | Inr nextShard \<Rightarrow>
                        (let w1 = emit (Call_SetupReadingChans currentShard) w
                         in (None, emit (Spawn (Forwarder currentShard nextShard i)) w1)))))))"

definition connectInternalInputsAndOutputs :: "world \<Rightarrow> error option \<times> world" where
  "connectInternalInputsAndOutputs w =
     for_range connectInternalInputsAndOutputs_body (enumerate 0 (Tasks (tr w))) w"

text \<open>Lines 148 to 158, \<^verbatim>\<open>connectExternalOutputs\<close>.\<close>

definition connectExternalOutputs_body :: "env \<Rightarrow> DatasetShard \<Rightarrow> world \<Rightarrow> error option \<times> world" where
  "connectExternalOutputs_body E shard w =
     (let writeChanName = shardChanName (option (tr w)) shard;
          w1 = emit (Call_GetLocalSendChannel writeChanName) w in
      case GetLocalSendChannel E writeChanName of
        Inl err \<Rightarrow> (Some (LogPanic err), w1)
      | Inr rawChan \<Rightarrow>
         (let (st, w2) = ConnectTypedWriteChannelToRaw (WriteChan shard) rawChan w1
          in (None, set_OutputChannelStatus st w2)))"

definition connectExternalOutputs :: "env \<Rightarrow> world \<Rightarrow> error option \<times> world" where
  "connectExternalOutputs E w =
     (case index (Tasks (tr w)) (int (length (Tasks (tr w))) - 1) of
        Inl e \<Rightarrow> (Some e, w)
      | Inr lastTask \<Rightarrow> for_range (connectExternalOutputs_body E) (Outputs lastTask) w)"

text \<open>Lines 74 to 87, \<^verbatim>\<open>connectInputsAndOutputs\<close>.\<close>

definition connectInputsAndOutputs :: "env \<Rightarrow> world \<Rightarrow> error option \<times> world" where
  "connectInputsAndOutputs E w =
     (case name2Location (option_Inputs (option (tr w))) of
        Inl e \<Rightarrow> (Some e, w)
      | Inr n2l \<Rightarrow>
         and_then (and_then (and_then (connectExternalInputChannels E w)
           (connectExternalInputs E n2l))
           connectInternalInputsAndOutputs)
           (connectExternalOutputs E))"

subsection \<open>Run: the main thread\<close>

text \<open>
  Lines 44 to 67 of \<^verbatim>\<open>Run\<close>, up to the call of \<^verbatim>\<open>wg.Wait\<close>. The context \<open>fc\<close>
  is the caller's object, returned with what \<^verbatim>\<open>Run\<close> wrote to it; \<open>t0\<close> is what
  \<^verbatim>\<open>time.Now()\<close> returns at line 53. The outcome says where the main thread is:
  it has returned, it has panicked, or it stands at \<^verbatim>\<open>wg.Wait\<close>.
\<close>

datatype outcome = Returned | Panicked error | AtWait | Blocked

definition set_StartTime :: "nat \<Rightarrow> world \<Rightarrow> world" where
  "set_StartTime t w =
     w\<lparr>tr := (tr w)\<lparr>executorStatus := (executorStatus (tr w))\<lparr>StartTime := t\<rparr>\<rparr>\<rparr>"

definition set_StopTime :: "nat \<Rightarrow> world \<Rightarrow> world" where
  "set_StopTime t w =
     w\<lparr>tr := (tr w)\<lparr>executorStatus := (executorStatus (tr w))\<lparr>StopTime := t\<rparr>\<rparr>\<rparr>"

definition launch :: "Task \<Rightarrow> world \<Rightarrow> error option \<times> world" where
  "launch task w = (None, emit (Spawn (Stage task)) w)"

definition Run_main :: "env \<Rightarrow> nat \<Rightarrow> FlowContext \<Rightarrow> world \<Rightarrow> outcome \<times> FlowContext \<times> world" where
  "Run_main E t0 fc w =
     (if fc_Id fc \<noteq> ContextId (option (tr w)) then (Returned, fc, w)
      else
        (let fc1 = fc\<lparr>fc_ChannelBufferSize := ChannelBufferSize (option (tr w))\<rparr>;
             w1 = emit Call_GroupTasks w in
         case index (GroupTasks E fc1) (TaskGroupId (option (tr w))) of
           Inl e \<Rightarrow> (Panicked e, fc1, w1)
         | Inr tasks \<Rightarrow>
            (let w2 = w1\<lparr>tr := (tr w1)\<lparr>Tasks := tasks, FlowContext := Some fc1\<rparr>\<rparr>;
                 w3 = set_StartTime t0 w2 in
             case connectInputsAndOutputs E w3 of
               (Some e, w4) \<Rightarrow> (Panicked e, fc1, w4)
             | (None, w4) \<Rightarrow>
                (case for_range launch (Tasks (tr w4)) w4 of
                   (Some e, w5) \<Rightarrow> (Panicked e, fc1, w5)
                 | (None, w5) \<Rightarrow> (AtWait, fc1, w5)))))"

subsection \<open>Run: the wait group and the clock\<close>

text \<open>
  From line 53 on the main thread runs beside the units it has started. The state of
  that concurrent system: the clock, the events the main thread has still to perform
  before it reaches \<^verbatim>\<open>wg.Wait\<close> (its \<open>todo\<close>), the units registered with the wait
  group that have not yet called \<^verbatim>\<open>wg.Done\<close> (the counter of the wait group is their
  number), the units that have, whether \<^verbatim>\<open>wg.Wait\<close> has returned, and the time read
  at line 71 once it is read. A schedule is a list of choices: the clock advances, the
  main thread takes its next step, or the \<open>k\<close>-th live unit finishes. The clock never
  goes back; a choice that is not enabled leaves the state as it is, so a main thread at
  \<^verbatim>\<open>wg.Wait\<close> with a positive counter does not move.
\<close>

record conc =
  clock :: nat
  todo :: "event list"
  live :: "goroutine list"
  finished :: "goroutine list"
  waited :: bool
  stopTime :: "nat option"

datatype choice = Tick | Main | Done nat

fun step :: "choice \<Rightarrow> conc \<Rightarrow> conc" where
  "step Tick c = c\<lparr>clock := Suc (clock c)\<rparr>"
| "step (Done k) c =
     (if k < length (live c)
      then c\<lparr>live := take k (live c) @ drop (Suc k) (live c), finished := finished c @ [live c ! k]\<rparr>
      else c)"
| "step Main c =
     (case todo c of
        Spawn u # es \<Rightarrow> c\<lparr>todo := es, live := live c @ [u]\<rparr>
      | _ # es \<Rightarrow> c\<lparr>todo := es\<rparr>
      | [] \<Rightarrow>
         if \<not> waited c then (if live c = [] then c\<lparr>waited := True\<rparr> else c)
         else (case stopTime c of None \<Rightarrow> c\<lparr>stopTime := Some (clock c)\<rparr> | Some _ \<Rightarrow> c))"

fun exec :: "choice list \<Rightarrow> conc \<Rightarrow> conc" where
  "exec [] c = c"
| "exec (x # xs) c = exec xs (step x c)"

definition conc_init :: "nat \<Rightarrow> event list \<Rightarrow> conc" where
  "conc_init t0 es =
     \<lparr>clock = t0, todo = es, live = [], finished = [], waited = False, stopTime = None\<rparr>"

text \<open>The units a list of events registers and starts, in order.\<close>

fun spawned :: "event list \<Rightarrow> goroutine list" where
  "spawned [] = []"
| "spawned (Spawn u # es) = u # spawned es"
| "spawned (_ # es) = spawned es"

text \<open>
  The whole of \<^verbatim>\<open>Run\<close> under a schedule. The events replayed beside the units are
  those the main thread emitted after reading the start time, that is all but the
  call of \<^verbatim>\<open>plan.GroupTasks\<close>. \<open>Blocked\<close>: the schedule ends before
  \<^verbatim>\<open>wg.Wait\<close> has returned and the stop time is written.
\<close>

definition Run :: "env \<Rightarrow> nat \<Rightarrow> choice list \<Rightarrow> FlowContext \<Rightarrow> world \<Rightarrow> outcome \<times> FlowContext \<times> world" where
  "Run E t0 sched fc w =
     (case Run_main E t0 fc w of
        (AtWait, fc1, w1) \<Rightarrow>
          (case stopTime (exec sched (conc_init t0 (drop (Suc (length (trace w))) (trace w1)))) of
             Some t1 \<Rightarrow> (Returned, fc1, set_StopTime t1 w1)
           | None \<Rightarrow> (Blocked, fc1, w1))
      | r \<Rightarrow> r)"

subsection \<open>The forwarder between two adjacent stages\<close>

text \<open>
  A Go channel as the forwarder sees it: the values in flight, oldest first, and whether
  it has been closed. A receive takes the oldest value; on a closed channel it reports
  exhaustion only once no value is left. Buffers are not bounded here: every run with
  bounded or unbuffered channels is one of these runs.
\<close>

record 'v chan =
  buf :: "'v list"
  closed :: bool

text \<open>
  Where the forwarder of lines 101 to 108 stands: before \<^verbatim>\<open>Recv\<close>, holding a received
  value before \<^verbatim>\<open>SendForRead\<close>, or after \<^verbatim>\<open>break\<close>.
\<close>

datatype 'v pc = AtRecv | AtSend 'v | Exited

text \<open>
  One hop of the chain: \<open>up\<close> is \<^verbatim>\<open>currentShard.WriteChan\<close>, written and closed by
  stage \<open>i\<close>; \<open>down\<close> is the input channel of stage \<open>i+1\<close>. \<open>sent\<close> and \<open>seen\<close>
  record what stage \<open>i\<close> has sent and what stage \<open>i+1\<close> has received, in order;
  \<open>seen_closed\<close> says that stage \<open>i+1\<close> has observed the end of its input;
  \<open>closes\<close> counts the calls of \<^verbatim>\<open>CloseRead\<close>; \<open>fault\<close> records a send on a closed
  channel or a second close, which panic in Go.
\<close>

record 'v hop =
  up :: "'v chan"
  down :: "'v chan"
  fwd :: "'v pc"
  sent :: "'v list"
  seen :: "'v list"
  seen_closed :: bool
  closes :: nat
  fault :: bool

text \<open>
  Modelled from the spec: \<^verbatim>\<open>nextShard.SendForRead(t)\<close> sends \<open>t\<close> onto the input
  shard's channel, and \<^verbatim>\<open>nextShard.CloseRead()\<close> closes the input shard's read side.
\<close>

definition SendForRead :: "'v \<Rightarrow> 'v hop \<Rightarrow> 'v hop" where
  "SendForRead t h =
     (if closed (down h) then h\<lparr>fault := True\<rparr>
      else h\<lparr>down := (down h)\<lparr>buf := buf (down h) @ [t]\<rparr>\<rparr>)"

definition CloseRead :: "'v hop \<Rightarrow> 'v hop" where
  "CloseRead h =
     (if closed (down h) then h\<lparr>fault := True, closes := Suc (closes h)\<rparr>
      else h\<lparr>down := (down h)\<lparr>closed := True\<rparr>, closes := Suc (closes h)\<rparr>)"

text \<open>
  One step of the forwarder: \<^verbatim>\<open>Recv\<close> with a value at hand, \<^verbatim>\<open>Recv\<close> on the closed
  and drained channel followed by \<^verbatim>\<open>CloseRead\<close> and \<^verbatim>\<open>break\<close>, or
  \<^verbatim>\<open>SendForRead\<close> of the value held. \<^verbatim>\<open>Recv\<close> on an open, empty channel blocks.
\<close>

definition forward :: "'v hop \<Rightarrow> 'v hop" where
  "forward h =
     (case fwd h of
        AtRecv \<Rightarrow>
          (case buf (up h) of
             t # rest \<Rightarrow> h\<lparr>up := (up h)\<lparr>buf := rest\<rparr>, fwd := AtSend t\<rparr>
           | [] \<Rightarrow> if closed (up h) then (CloseRead h)\<lparr>fwd := Exited\<rparr> else h)
      | AtSend t \<Rightarrow> (SendForRead t h)\<lparr>fwd := AtRecv\<rparr>
      | Exited \<Rightarrow> h)"

text \<open>
  The moves of the three parties of a hop: stage \<open>i\<close> sends a value or closes its
  output, the forwarder takes a step, stage \<open>i+1\<close> receives from its input.
\<close>

datatype 'v move = Produce 'v | CloseUp | Forward | Consume

fun hop_step :: "'v move \<Rightarrow> 'v hop \<Rightarrow> 'v hop" where
  "hop_step (Produce v) h =
     (if closed (up h) then h
      else h\<lparr>up := (up h)\<lparr>buf := buf (up h) @ [v]\<rparr>, sent := sent h @ [v]\<rparr>)"
| "hop_step CloseUp h = (if closed (up h) then h else h\<lparr>up := (up h)\<lparr>closed := True\<rparr>\<rparr>)"
| "hop_step Forward h = forward h"
| "hop_step Consume h =
     (case buf (down h) of
        v # rest \<Rightarrow> h\<lparr>down := (down h)\<lparr>buf := rest\<rparr>, seen := seen h @ [v]\<rparr>
      | [] \<Rightarrow> if closed (down h) then h\<lparr>seen_closed := True\<rparr> else h)"

fun hop_run :: "'v move list \<Rightarrow> 'v hop \<Rightarrow> 'v hop" where
  "hop_run [] h = h"
| "hop_run (m # ms) h = hop_run ms (hop_step m h)"

definition hop_init :: "'v hop" where
  "hop_init =
     \<lparr>up = \<lparr>buf = [], closed = False\<rparr>, down = \<lparr>buf = [], closed = False\<rparr>, fwd = AtRecv,
      sent = [], seen = [], seen_closed = False, closes = 0, fault = False\<rparr>"

text \<open>What the forwarder holds between \<^verbatim>\<open>Recv\<close> and \<^verbatim>\<open>SendForRead\<close>.\<close>

definition held :: "'v hop \<Rightarrow> 'v list" where
  "held h = (case fwd h of AtSend t \<Rightarrow> [t] | _ \<Rightarrow> [])"

subsection \<open>The inputs string as the specification reads it\<close>

text \<open>
  The name of a token is its text before the first \<^verbatim>\<open>@\<close>. Read as "split on the first
  \<^verbatim>\<open>@\<close>", its location is all the text after the first \<^verbatim>\<open>@\<close>
  (\<open>token_rest\<close>); read as \<^verbatim>\<open>strings.Split\<close> gives it, its location is the text
  between the first \<^verbatim>\<open>@\<close> and the second, or the end when there is no second
  (\<open>token_location\<close>). Tokens are taken in order, a later one replacing an earlier
  one of the same name.
\<close>

definition token_name :: "string \<Rightarrow> string" where
  "token_name t = takeWhile (\<lambda>c. c \<noteq> CHR ''@'') t"

definition token_rest :: "string \<Rightarrow> string" where
  "token_rest t = drop (Suc (length (token_name t))) t"

definition token_location :: "string \<Rightarrow> string" where
  "token_location t = takeWhile (\<lambda>c. c \<noteq> CHR ''@'') (token_rest t)"

definition name2Location_first_at :: "string \<Rightarrow> (string \<rightharpoonup> string)" where
  "name2Location_first_at inputs =
     (if inputs = [] then Map.empty
      else map_of (rev (map (\<lambda>t. (token_name t, token_rest t)) (Split inputs CHR '',''))))"

definition name2Location_spec :: "string \<Rightarrow> (string \<rightharpoonup> string)" where
  "name2Location_spec inputs =
     (if inputs = [] then Map.empty
      else map_of (rev (map (\<lambda>t. (token_name t, token_location t)) (Split inputs CHR '',''))))"

subsection \<open>The outcome and the events of the loops, as functions of their items\<close>

text \<open>
  Each loop body reads only the option, the buffer size and the shards of the tasks,
  none of which the wiring changes. So whether a body panics and which events it
  emits is a function of the item it runs on; the properties below are proved on these
  functions, which the theorems \<open>*_abs\<close> show to describe the state-passing code.
  \<open>run_items\<close> is the loop on that level: the events of the items in order, up to and
  including the first that panics.
\<close>

fun run_items :: "('a \<Rightarrow> error option \<times> event list) \<Rightarrow> 'a list \<Rightarrow> error option \<times> event list" where
  "run_items f [] = (None, [])"
| "run_items f (x # xs) =
     (case f x of
        (Some e, evs) \<Rightarrow> (Some e, evs)
      | (None, evs) \<Rightarrow> (case run_items f xs of (r, evs') \<Rightarrow> (r, evs @ evs')))"

definition seq_items ::
    "error option \<times> event list \<Rightarrow> error option \<times> event list \<Rightarrow> error option \<times> event list" where
  "seq_items a b =
     (case a of (Some e, evs) \<Rightarrow> (Some e, evs) | (None, evs) \<Rightarrow> (fst b, evs @ snd b))"

definition connectExternalInputChannels_item ::
    "env \<Rightarrow> TaskOption \<Rightarrow> error + int \<Rightarrow> Dataset \<Rightarrow> nat \<times> typedChan \<Rightarrow> error option \<times> event list" where
  "connectExternalInputChannels_item E opt bsr ds ic =
     (let i = fst ic; name = inputChanName opt ds i in
      case bsr of
        Inl e \<Rightarrow> (Some e, [])
      | Inr bufSize \<Rightarrow>
         (case GetLocalReadChannel E name bufSize of
            Inl err \<Rightarrow> (Some (LogPanic err), [Call_GetLocalReadChannel name bufSize])
          | Inr rawChan \<Rightarrow>
             (None, [Call_GetLocalReadChannel name bufSize, Call_make_chan (MadeChan i),
                     Spawn (DecodeAdapter rawChan (MadeChan i) (ds_Type ds))])))"

definition connectExternalInputChannels_events ::
    "env \<Rightarrow> TaskOption \<Rightarrow> error + int \<Rightarrow> Task list \<Rightarrow> error option \<times> event list" where
  "connectExternalInputChannels_events E opt bsr tasks =
     (case index tasks 0 of
        Inl e \<Rightarrow> (Some e, [])
      | Inr firstTask \<Rightarrow>
         if Inputs firstTask \<noteq> None then (None, [])
         else
           (case index (Outputs firstTask) 0 of
              Inl e \<Rightarrow> (Some e, [])
            | Inr shard \<Rightarrow>
               run_items (connectExternalInputChannels_item E opt bsr (Parent shard))
                 (enumerate 0 (ExternalInputChans (Parent shard)))))"

definition connectExternalInputs_item ::
    "env \<Rightarrow> TaskOption \<Rightarrow> error + int \<Rightarrow> (string \<rightharpoonup> string) \<Rightarrow> Task \<Rightarrow> nat \<times> DatasetShard \<Rightarrow>
       error option \<times> event list" where
  "connectExternalInputs_item E opt bsr n2l firstTask ishard =
     (let i = fst ishard; shard = snd ishard; readChanName = shardChanName opt shard in
      case bsr of
        Inl e \<Rightarrow> (Some e, [])
      | Inr bufSize \<Rightarrow>
         (let call = Call_GetDirectReadChannel readChanName (lookup n2l readChanName) bufSize in
          case GetDirectReadChannel E readChanName (lookup n2l readChanName) bufSize of
            Inl err \<Rightarrow> (Some (LogPanic err), [call])
          | Inr rawChan \<Rightarrow>
             (case index (InputChans firstTask) (int i) of
                Inl e \<Rightarrow> (Some e, [call])
              | Inr c \<Rightarrow> (None, [call, Spawn (DecodeAdapter rawChan c (ds_Type (Parent shard)))]))))"

definition connectExternalInputs_events ::
    "env \<Rightarrow> TaskOption \<Rightarrow> error + int \<Rightarrow> (string \<rightharpoonup> string) \<Rightarrow> Task list \<Rightarrow> error option \<times> event list" where
  "connectExternalInputs_events E opt bsr n2l tasks =
     (case index tasks 0 of
        Inl e \<Rightarrow> (Some e, [])
      | Inr firstTask \<Rightarrow>
         run_items (connectExternalInputs_item E opt bsr n2l firstTask)
           (enumerate 0 (elems (Inputs firstTask))))"

definition connectInternalInputsAndOutputs_item ::
    "Task list \<Rightarrow> nat \<times> Task \<Rightarrow> error option \<times> event list" where
  "connectInternalInputsAndOutputs_item tasks it =
     (let i = fst it in
      if int i = int (length tasks) - 1 then (None, [])
      else
        (case index tasks (int i) of
           Inl e \<Rightarrow> (Some e, [])
         | Inr ti \<Rightarrow>
            (case index (Outputs ti) 0 of
               Inl e \<Rightarrow> (Some e, [])
             | Inr currentShard \<Rightarrow>
                (case index tasks (int i + 1) of
                   Inl e \<Rightarrow> (Some e, [])
                 | Inr tn \<Rightarrow>
                    (case index (elems (Inputs tn)) 0 of
                       Inl e \<Rightarrow> (Some e, [])
                     | Inr nextShard \<Rightarrow>
                        (None, [Call_SetupReadingChans currentShard,
                                Spawn (Forwarder currentShard nextShard i)]))))))"

definition connectInternalInputsAndOutputs_events :: "Task list \<Rightarrow> error option \<times> event list" where
  "connectInternalInputsAndOutputs_events tasks =
     run_items (connectInternalInputsAndOutputs_item tasks) (enumerate 0 tasks)"

definition connectExternalOutputs_item ::
    "env \<Rightarrow> TaskOption \<Rightarrow> DatasetShard \<Rightarrow> error option \<times> event list" where
  "connectExternalOutputs_item E opt shard =
     (let writeChanName = shardChanName opt shard in
      case GetLocalSendChannel E writeChanName of
        Inl err \<Rightarrow> (Some (LogPanic err), [Call_GetLocalSendChannel writeChanName])
      | Inr rawChan \<Rightarrow>
         (None, [Call_GetLocalSendChannel writeChanName,
                 Spawn (EncodeAdapter (WriteChan shard) rawChan)]))"

definition connectExternalOutputs_events ::
    "env \<Rightarrow> TaskOption \<Rightarrow> Task list \<Rightarrow> error option \<times> event list" where
  "connectExternalOutputs_events E opt tasks =
     (case index tasks (int (length tasks) - 1) of
        Inl e \<Rightarrow> (Some e, [])
      | Inr lastTask \<Rightarrow> run_items (connectExternalOutputs_item E opt) (Outputs lastTask))"

definition connectInputsAndOutputs_events ::
    "env \<Rightarrow> TaskOption \<Rightarrow> error + int \<Rightarrow> Task list \<Rightarrow> error option \<times> event list" where
  "connectInputsAndOutputs_events E opt bsr tasks =
     (case name2Location (option_Inputs opt) of
        Inl e \<Rightarrow> (Some e, [])
      | Inr n2l \<Rightarrow>
         seq_items (seq_items (seq_items
           (connectExternalInputChannels_events E opt bsr tasks)
           (connectExternalInputs_events E opt bsr n2l tasks))
           (connectInternalInputsAndOutputs_events tasks))
           (connectExternalOutputs_events E opt tasks))"

text \<open>
  What the wiring leaves as it is: the option, the buffer size of the context, and the
  input and output shards of every task (the external-input-channel phase appends to
  the input channels of the first task only).
\<close>

definition frame :: "TaskOption \<Rightarrow> error + int \<Rightarrow> Task list \<Rightarrow> world \<Rightarrow> bool" where
  "frame opt bsr tasks w \<longleftrightarrow>
     option (tr w) = opt \<and> bufferSize w = bsr \<and>
     map Inputs (Tasks (tr w)) = map Inputs tasks \<and>
     map Outputs (Tasks (tr w)) = map Outputs tasks"

text \<open>The units of each kind among those a list of events starts.\<close>

fun is_Forwarder :: "goroutine \<Rightarrow> bool" where
  "is_Forwarder (Forwarder c n i) = True"
| "is_Forwarder _ = False"

fun is_DecodeAdapter :: "goroutine \<Rightarrow> bool" where
  "is_DecodeAdapter (DecodeAdapter r c t) = True"
| "is_DecodeAdapter _ = False"

fun is_EncodeAdapter :: "goroutine \<Rightarrow> bool" where
  "is_EncodeAdapter (EncodeAdapter c r) = True"
| "is_EncodeAdapter _ = False"

fun is_Stage :: "goroutine \<Rightarrow> bool" where
  "is_Stage (Stage t) = True"
| "is_Stage _ = False"

text \<open>
  The error the collaborator returns for a resolution call, if it returns one, and the
  channel name a resolution call asks for.
\<close>

fun call_error :: "env \<Rightarrow> event \<Rightarrow> string option" where
  "call_error E (Call_GetDirectReadChannel n l b) =
     (case GetDirectReadChannel E n l b of Inl err \<Rightarrow> Some err | Inr c \<Rightarrow> None)"
| "call_error E (Call_GetLocalReadChannel n b) =
     (case GetLocalReadChannel E n b of Inl err \<Rightarrow> Some err | Inr c \<Rightarrow> None)"
| "call_error E (Call_GetLocalSendChannel n) =
     (case GetLocalSendChannel E n of Inl err \<Rightarrow> Some err | Inr c \<Rightarrow> None)"
| "call_error E _ = None"

fun direct_read_names :: "event list \<Rightarrow> string list" where
  "direct_read_names [] = []"
| "direct_read_names (Call_GetDirectReadChannel n l b # es) = n # direct_read_names es"
| "direct_read_names (_ # es) = direct_read_names es"

fun local_read_names :: "event list \<Rightarrow> string list" where
  "local_read_names [] = []"
| "local_read_names (Call_GetLocalReadChannel n b # es) = n # local_read_names es"
| "local_read_names (_ # es) = local_read_names es"

fun local_send_names :: "event list \<Rightarrow> string list" where
  "local_send_names [] = []"
| "local_send_names (Call_GetLocalSendChannel n # es) = n # local_send_names es"
| "local_send_names (_ # es) = local_send_names es"

text \<open>
  The names the external-input-channel phase asks for when it runs to its end: one for
  each external input of the dataset of the first output shard of a first task whose
  input slice is nil.
\<close>

definition names1 :: "TaskOption \<Rightarrow> Task \<Rightarrow> string list" where
  "names1 opt firstTask =
     (case (Inputs firstTask, Outputs firstTask) of
        (None, shard # _) \<Rightarrow>
          map (inputChanName opt (Parent shard)) [0..<length (ExternalInputChans (Parent shard))]
      | _ \<Rightarrow> [])"

text \<open>
  A list of events in which no resolution call fails, and the shape of what a step of
  the wiring does with its collaborators: no call but the last fails, and when the last
  fails the step panics with the collaborator's error.
\<close>

definition calls_ok :: "env \<Rightarrow> event list \<Rightarrow> bool" where
  "calls_ok E evs \<longleftrightarrow> (\<forall>ev \<in> set evs. call_error E ev = None)"

definition good :: "env \<Rightarrow> error option \<times> event list \<Rightarrow> bool" where
  "good E res \<longleftrightarrow>
     calls_ok E (butlast (snd res)) \<and>
     (snd res \<noteq> [] \<longrightarrow> (\<forall>e. call_error E (last (snd res)) = Some e \<longrightarrow> fst res = Some (LogPanic e)))"

text \<open>
  The three timestamps of the status, and the invariant of the concurrent system started
  at time \<open>t0\<close> with the units \<open>us\<close> to start: the clock has not gone back, once
  \<^verbatim>\<open>wg.Wait\<close> has returned the main thread has nothing left to start and no unit is
  live, a stop time is read only after \<^verbatim>\<open>wg.Wait\<close> has returned, and every unit is
  finished, live or still to be started.
\<close>

definition times :: "world \<Rightarrow> nat \<times> nat \<times> nat" where
  "times w = (ReadyTime (executorStatus (tr w)), StartTime (executorStatus (tr w)),
              StopTime (executorStatus (tr w)))"

definition conc_inv :: "nat \<Rightarrow> goroutine list \<Rightarrow> conc \<Rightarrow> bool" where
  "conc_inv t0 us c \<longleftrightarrow>
     t0 \<le> clock c \<and>
     (waited c \<longrightarrow> todo c = [] \<and> live c = []) \<and>
     (\<forall>t. stopTime c = Some t \<longrightarrow> waited c \<and> t0 \<le> t) \<and>
     mset (finished c) + mset (live c) + mset (spawned (todo c)) = mset us"

text \<open>
  The invariant of a hop: every value sent is, in order, received, in the downstream
  channel, in the forwarder's hand or in the upstream channel; nothing has panicked; the
  downstream channel is closed exactly when the forwarder has exited, which it does
  once, with the upstream channel closed and empty; and stage \<open>i+1\<close> has observed the
  end only of a closed and empty channel. \<open>remaining\<close> bounds the steps the forwarder
  still takes once the upstream channel is closed.
\<close>

definition hop_inv :: "'v hop \<Rightarrow> bool" where
  "hop_inv h \<longleftrightarrow>
     sent h = seen h @ buf (down h) @ held h @ buf (up h) \<and>
     \<not> fault h \<and>
     (closed (down h) \<longleftrightarrow> fwd h = Exited) \<and>
     closes h = (if fwd h = Exited then 1 else 0) \<and>
     (fwd h = Exited \<longrightarrow> closed (up h) \<and> buf (up h) = []) \<and>
     (seen_closed h \<longrightarrow> closed (down h) \<and> buf (down h) = [])"

definition remaining :: "'v hop \<Rightarrow> nat" where
  "remaining h =
     (case fwd h of
        AtRecv \<Rightarrow> 2 * length (buf (up h)) + 1
      | AtSend t \<Rightarrow> 2 * length (buf (up h)) + 2
      | Exited \<Rightarrow> 0)"

text \<open>The forwarder that the internal phase starts for the pair of stages \<open>i\<close> and \<open>i+1\<close>.\<close>

definition forwarder_of :: "Task list \<Rightarrow> nat \<Rightarrow> goroutine" where
  "forwarder_of ts i = Forwarder (Outputs (ts ! i) ! 0) (elems (Inputs (ts ! Suc i)) ! 0) i"

subsection \<open>Example data\<close>

text \<open>
  A collaborator whose resolutions all succeed, one whose local write resolution fails,
  and the three-stage group of the specification's scenario: each stage has one input
  and one output shard, and the output shard of a stage is the input shard of the next.
\<close>

definition ex_ds :: Dataset where
  "ex_ds = \<lparr>ds_Id = 7, ds_Type = ''int'', ExternalInputChans = [Chan 100, Chan 101]\<rparr>"

definition ex_shard :: "string \<Rightarrow> nat \<Rightarrow> DatasetShard" where
  "ex_shard n c = \<lparr>Name = n, Parent = ex_ds, WriteChan = Chan c\<rparr>"

definition ex_tasks :: "Task list" where
  "ex_tasks =
     [\<lparr>Inputs = Some [ex_shard ''s0'' 0], Outputs = [ex_shard ''s1'' 1], InputChans = [Chan 10]\<rparr>,
      \<lparr>Inputs = Some [ex_shard ''s1'' 1], Outputs = [ex_shard ''s2'' 2], InputChans = [Chan 11]\<rparr>,
      \<lparr>Inputs = Some [ex_shard ''s2'' 2], Outputs = [ex_shard ''s3'' 3], InputChans = [Chan 12]\<rparr>]"

definition ex_env :: env where
  "ex_env =
     \<lparr>GetDirectReadChannel = (\<lambda>name location bufSize. Inr 1),
      GetLocalReadChannel = (\<lambda>name bufSize. Inr 2),
      GetLocalSendChannel = (\<lambda>name. Inr 3),
      GroupTasks = (\<lambda>fc. [ex_tasks])\<rparr>"

definition ex_env_failing :: env where
  "ex_env_failing = ex_env\<lparr>GetLocalSendChannel := (\<lambda>name. Inl ''no agent'')\<rparr>"

definition ex_option :: TaskOption where
  "ex_option =
     \<lparr>ContextId = 3, TaskGroupId = 0, ExecutableFileHash = ''job'', option_Inputs = [],
      ChannelBufferSize = 16\<rparr>"

definition ex_fc :: FlowContext where
  "ex_fc = \<lparr>fc_Id = 3, fc_ChannelBufferSize = 0\<rparr>"

definition ex_world :: "TaskOption \<Rightarrow> world" where
  "ex_world opt = \<lparr>tr = NewTaskRunner opt, trace = []\<rparr>"

text \<open>The runner as \<^verbatim>\<open>Run\<close> has set it up for the example group, before the wiring.\<close>

definition ex_wired :: world where
  "ex_wired =
     \<lparr>tr = (NewTaskRunner ex_option)\<lparr>Tasks := ex_tasks,
             FlowContext := Some (ex_fc\<lparr>fc_ChannelBufferSize := 16\<rparr>)\<rparr>,
      trace = []\<rparr>"

text \<open>A group of one source stage: its input slice is nil.\<close>

definition ex_source_wired :: world where
  "ex_source_wired =
     \<lparr>tr = (NewTaskRunner ex_option)\<lparr>Tasks := [\<lparr>Inputs = None, Outputs = [ex_shard ''s1'' 1], InputChans = []\<rparr>],
             FlowContext := Some (ex_fc\<lparr>fc_ChannelBufferSize := 16\<rparr>)\<rparr>,
      trace = []\<rparr>"

text \<open>A group of one stage with two output shards.\<close>

definition ex_fan_out :: world where
  "ex_fan_out =
     \<lparr>tr = (NewTaskRunner ex_option)\<lparr>Tasks :=
               [\<lparr>Inputs = Some [ex_shard ''s0'' 0],
                 Outputs = [ex_shard ''a'' 1, ex_shard ''b'' 2], InputChans = [Chan 10]\<rparr>],
             FlowContext := Some (ex_fc\<lparr>fc_ChannelBufferSize := 16\<rparr>)\<rparr>,
      trace = []\<rparr>"

text \<open>
  A group of one stage whose input slice is empty but not nil, and whose output dataset
  declares two external inputs.
\<close>

definition ex_empty_inputs :: world where
  "ex_empty_inputs =
     \<lparr>tr = (NewTaskRunner ex_option)\<lparr>Tasks := [\<lparr>Inputs = Some [], Outputs = [ex_shard ''s1'' 1], InputChans = []\<rparr>],
             FlowContext := Some (ex_fc\<lparr>fc_ChannelBufferSize := 16\<rparr>)\<rparr>,
      trace = []\<rparr>"

text \<open>
  The external-input-channel phase as the specification words its guard: it runs when
  the first stage has no declared input slots, whether its input slice is nil or empty.
\<close>

definition connectExternalInputChannels_as_claimed :: "env \<Rightarrow> world \<Rightarrow> error option \<times> world" where
  "connectExternalInputChannels_as_claimed E w =
     (case index (Tasks (tr w)) 0 of
        Inl e \<Rightarrow> (Some e, w)
      | Inr firstTask \<Rightarrow>
         if elems (Inputs firstTask) \<noteq> [] then (None, w)
         else
           (case index (Outputs firstTask) 0 of
              Inl e \<Rightarrow> (Some e, w)
            | Inr shard \<Rightarrow>
               (let ds = Parent shard in
                for_range (connectExternalInputChannels_body E ds)
                  (enumerate 0 (ExternalInputChans ds)) w)))"

text \<open>
  A schedule for the example group: a decoding adapter finishes while the main thread
  is still wiring, and the main thread reaches \<^verbatim>\<open>wg.Wait\<close> before the last unit has
  finished.
\<close>

definition ex_sched :: "choice list" where
  "ex_sched =
     [Main, Main, Main, Main, Done 0, Tick, Main, Main, Main, Main, Main, Main, Main,
      Done 0, Done 0, Done 0, Done 0, Done 0, Main, Done 0, Tick, Main, Main]"

text \<open>
  A run of one hop: two values are sent, stage \<open>i+1\<close> tries to receive before
  anything has arrived and before the close has been forwarded, and ends having
  received both values and then the end of its input.
\<close>

definition ex_moves :: "nat move list" where
  "ex_moves =
     [Produce 1, Produce 2, Forward, Consume, Forward, Consume, CloseUp, Consume,
      Forward, Forward, Forward, Consume, Consume]"

section \<open>Properties\<close>

subsection \<open>Parsing the inputs string\<close>

lemma Split_no_sep: "sep \<notin> set s \<Longrightarrow> Split s sep = [s]"
proof -
  assume a: "sep \<notin> set s"
  have tw: "takeWhile (\<lambda>c. c \<noteq> sep) s = s" using a by auto
  have dw: "dropWhile (\<lambda>c. c \<noteq> sep) s = []" using a by auto
  show ?thesis by (subst Split.simps) (simp only: tw dw list.case)
qed

lemma Split_sep:
  "sep \<in> set s \<Longrightarrow>
     Split s sep = takeWhile (\<lambda>c. c \<noteq> sep) s # Split (tl (dropWhile (\<lambda>c. c \<noteq> sep) s)) sep"
  by (subst Split.simps) (auto split: list.splits)

lemma Split_at_two:
  assumes "CHR ''@'' \<in> set t"
  shows "\<exists>rest. Split t CHR ''@'' = token_name t # token_location t # rest"
proof -
  let ?P = "\<lambda>c. c \<noteq> CHR ''@''"
  have d: "dropWhile ?P t = drop (length (takeWhile ?P t)) t"
    by (simp add: dropWhile_eq_drop)
  have "tl (dropWhile ?P t) = token_rest t"
    unfolding token_name_def token_rest_def d by (simp add: drop_Suc tl_drop)
  moreover have "\<exists>rest. Split (tl (dropWhile ?P t)) CHR ''@'' = takeWhile ?P (tl (dropWhile ?P t)) # rest"
    by (subst Split.simps) simp
  ultimately show ?thesis
    using Split_sep[OF assms] by (auto simp: token_name_def token_location_def)
qed

lemma name2Location_loop_ok:
  "\<forall>t \<in> set ts. CHR ''@'' \<in> set t \<Longrightarrow>
   name2Location_loop ts m =
     Inr (m ++ map_of (rev (map (\<lambda>t. (token_name t, token_location t)) ts)))"
proof (induction ts arbitrary: m)
  case Nil
  then show ?case by simp
next
  case (Cons t ts)
  let ?f = "\<lambda>t. (token_name t, token_location t)"
  obtain rest where sp: "Split t CHR ''@'' = token_name t # token_location t # rest"
    using Cons.prems Split_at_two by fastforce
  have "name2Location_loop (t # ts) m = name2Location_loop ts (m(token_name t \<mapsto> token_location t))"
    by (simp add: sp index_def)
  also have "\<dots> = Inr (m(token_name t \<mapsto> token_location t) ++ map_of (rev (map ?f ts)))"
    using Cons by simp
  also have "m(token_name t \<mapsto> token_location t) ++ map_of (rev (map ?f ts))
     = m ++ map_of (rev (map ?f (t # ts)))"
    by (simp add: map_add_upd_left)
  finally show ?case .
qed

lemma name2Location_loop_panic:
  "\<exists>t \<in> set ts. CHR ''@'' \<notin> set t \<Longrightarrow> name2Location_loop ts m = Inl (IndexOutOfRange 1 1)"
proof (induction ts arbitrary: m)
  case Nil
  then show ?case by simp
next
  case (Cons t ts)
  show ?case
  proof (cases "CHR ''@'' \<in> set t")
    case True
    then obtain rest where sp: "Split t CHR ''@'' = token_name t # token_location t # rest"
      using Split_at_two by fastforce
    from True Cons.prems have "\<exists>t \<in> set ts. CHR ''@'' \<notin> set t" by auto
    then show ?thesis using Cons.IH by (simp add: sp index_def)
  next
    case False
    then show ?thesis by (simp add: Split_no_sep index_def)
  qed
qed

lemma example_spec:
  "name2Location_spec ''A-shard@host1:9000,B-shard@host2:9001'' =
     [''A-shard'' \<mapsto> ''host1:9000'', ''B-shard'' \<mapsto> ''host2:9001'']"
  by (simp add: name2Location_spec_def Split.simps token_name_def token_location_def token_rest_def)

text \<open>
  C5, as the claim states it, fails: on the token \<^verbatim>\<open>a@b@c\<close> the code maps \<^verbatim>\<open>a\<close> to
  \<^verbatim>\<open>b\<close>, the text between the first two \<^verbatim>\<open>@\<close>, and not to \<^verbatim>\<open>b@c\<close>, the entire
  text after the first \<^verbatim>\<open>@\<close>.
\<close>

theorem name2Location_first_at_counterexample:
  "name2Location ''a@b@c'' = Inr [''a'' \<mapsto> ''b''] \<and>
   name2Location_first_at ''a@b@c'' = [''a'' \<mapsto> ''b@c''] \<and>
   name2Location ''a@b@c'' \<noteq> Inr (name2Location_first_at ''a@b@c'')"
proof -
  have 1: "name2Location ''a@b@c'' = Inr [''a'' \<mapsto> ''b'']"
    by (simp add: name2Location_def Split.simps index_def)
  have 2: "name2Location_first_at ''a@b@c'' = [''a'' \<mapsto> ''b@c'']"
    by (simp add: name2Location_first_at_def Split.simps token_name_def token_rest_def)
  have "[''a'' \<mapsto> ''b''] ''a'' \<noteq> [''a'' \<mapsto> ''b@c''] ''a''" by simp
  then have "[''a'' \<mapsto> ''b''] \<noteq> [''a'' \<mapsto> ''b@c'']" by metis
  with 1 2 show ?thesis by simp
qed

text \<open>
  C5, amended: for every inputs string that is empty or whose comma-separated tokens
  all contain an \<^verbatim>\<open>@\<close>, the mapping is built by splitting the string on commas and
  each token on every \<^verbatim>\<open>@\<close>, and maps the text before the first \<^verbatim>\<open>@\<close> to the text
  between the first \<^verbatim>\<open>@\<close> and the second (to all the text after the first when there
  is no second), a later token replacing an earlier one of the same name. The string
  \<^verbatim>\<open>A-shard@host1:9000,B-shard@host2:9001\<close> yields the mapping of the claim, and the
  empty string the empty mapping.
\<close>

theorem name2Location_amended:
  assumes "inputs = [] \<or> (\<forall>t \<in> set (Split inputs CHR '',''). CHR ''@'' \<in> set t)"
  shows "name2Location inputs = Inr (name2Location_spec inputs) \<and>
         name2Location_spec [] = Map.empty \<and>
         name2Location_spec ''A-shard@host1:9000,B-shard@host2:9001'' =
           [''A-shard'' \<mapsto> ''host1:9000'', ''B-shard'' \<mapsto> ''host2:9001'']"
proof -
  have "name2Location inputs = Inr (name2Location_spec inputs)"
  proof (cases "inputs = []")
    case True
    then show ?thesis by (simp add: name2Location_def name2Location_spec_def)
  next
    case False
    with assms have "\<forall>t \<in> set (Split inputs CHR '',''). CHR ''@'' \<in> set t" by simp
    from name2Location_loop_ok[OF this, of Map.empty] False show ?thesis
      by (simp add: name2Location_def name2Location_spec_def)
  qed
  moreover have "name2Location_spec [] = Map.empty"
    by (simp add: name2Location_spec_def)
  ultimately show ?thesis using example_spec by simp
qed

theorem name2Location_amended_witness:
  "name2Location ''A-shard@host1:9000,B-shard@host2:9001'' =
     Inr [''A-shard'' \<mapsto> ''host1:9000'', ''B-shard'' \<mapsto> ''host2:9001'']"
proof -
  have h: "''A-shard@host1:9000,B-shard@host2:9001'' = [] \<or>
      (\<forall>t \<in> set (Split ''A-shard@host1:9000,B-shard@host2:9001'' CHR '',''). CHR ''@'' \<in> set t)"
    by (simp add: Split.simps)
  from name2Location_amended[OF h] show ?thesis by simp
qed

subsection \<open>The wiring code and its events\<close>

lemma for_range_abs:
  assumes body: "\<And>x w r w'. I w \<Longrightarrow> body x w = (r, w') \<Longrightarrow>
            r = fst (f x) \<and> trace w' = trace w @ snd (f x) \<and> I w'"
  shows "I w \<Longrightarrow> for_range body xs w = (r, w') \<Longrightarrow>
           r = fst (run_items f xs) \<and> trace w' = trace w @ snd (run_items f xs) \<and> I w'"
proof (induction xs arbitrary: w)
  case Nil
  then show ?case by simp
next
  case (Cons x xs)
  obtain r1 w1 where b: "body x w = (r1, w1)" by (cases "body x w")
  from body[OF Cons.prems(1) b] have 1: "r1 = fst (f x)" "trace w1 = trace w @ snd (f x)" "I w1"
    by auto
  show ?case
  proof (cases r1)
    case None
    with Cons.prems(2) b have "for_range body xs w1 = (r, w')" by simp
    from Cons.IH[OF 1(3) this] 1 None show ?thesis
      by (cases "f x"; cases "run_items f xs") auto
  next
    case (Some e)
    with Cons.prems(2) b have "r = Some e" "w' = w1" by auto
    with 1 Some show ?thesis by (cases "f x") auto
  qed
qed

lemma body1_abs:
  assumes "frame opt bsr tasks w" "connectExternalInputChannels_body E ds ic w = (r, w')"
  shows "r = fst (connectExternalInputChannels_item E opt bsr ds ic) \<and>
         trace w' = trace w @ snd (connectExternalInputChannels_item E opt bsr ds ic) \<and>
         frame opt bsr tasks w'"
  using assms
  by (auto simp: frame_def connectExternalInputChannels_body_def connectExternalInputChannels_item_def
      Let_def emit_def ConnectRawReadChannelToTyped_def append_InputChannelStatus_def
      append_InputChan_def bufferSize_def split: sum.splits option.splits list.splits)


lemma body2_abs:
  assumes "frame opt bsr tasks w" "connectExternalInputs_body E n2l ft ishard w = (r, w')"
  shows "r = fst (connectExternalInputs_item E opt bsr n2l ft ishard) \<and>
         trace w' = trace w @ snd (connectExternalInputs_item E opt bsr n2l ft ishard) \<and>
         frame opt bsr tasks w' \<and> Tasks (tr w') = Tasks (tr w)"
  using assms
  by (auto simp: frame_def connectExternalInputs_body_def connectExternalInputs_item_def
      Let_def emit_def ConnectRawReadChannelToTyped_def append_InputChannelStatus_def
      bufferSize_def split: sum.splits option.splits)

lemma body3_abs:
  assumes "frame opt bsr tasks w \<and> Tasks (tr w) = ts" "connectInternalInputsAndOutputs_body it w = (r, w')"
  shows "r = fst (connectInternalInputsAndOutputs_item ts it) \<and>
         trace w' = trace w @ snd (connectInternalInputsAndOutputs_item ts it) \<and>
         (frame opt bsr tasks w' \<and> Tasks (tr w') = ts)"
  using assms
  by (auto simp: frame_def connectInternalInputsAndOutputs_body_def connectInternalInputsAndOutputs_item_def
      Let_def emit_def bufferSize_def split: sum.splits option.splits if_splits)

lemma body4_abs:
  assumes "frame opt bsr tasks w \<and> Tasks (tr w) = ts" "connectExternalOutputs_body E shard w = (r, w')"
  shows "r = fst (connectExternalOutputs_item E opt shard) \<and>
         trace w' = trace w @ snd (connectExternalOutputs_item E opt shard) \<and>
         (frame opt bsr tasks w' \<and> Tasks (tr w') = ts)"
  using assms
  by (auto simp: frame_def connectExternalOutputs_body_def connectExternalOutputs_item_def
      Let_def emit_def ConnectTypedWriteChannelToRaw_def set_OutputChannelStatus_def
      bufferSize_def split: sum.splits option.splits)

lemma launch_abs:
  assumes "frame opt bsr tasks w \<and> Tasks (tr w) = ts" "launch task w = (r, w')"
  shows "r = fst (None, [Spawn (Stage task)]) \<and>
         trace w' = trace w @ snd (None :: error option, [Spawn (Stage task)]) \<and>
         (frame opt bsr tasks w' \<and> Tasks (tr w') = ts)"
  using assms by (auto simp: frame_def launch_def emit_def bufferSize_def)

lemma frame_refl: "frame (option (tr w)) (bufferSize w) (Tasks (tr w)) w"
  by (simp add: frame_def)

lemma phase1_abs:
  assumes "frame opt bsr tasks w" "connectExternalInputChannels E w = (r, w')"
  shows "r = fst (connectExternalInputChannels_events E opt bsr (Tasks (tr w))) \<and>
         trace w' = trace w @ snd (connectExternalInputChannels_events E opt bsr (Tasks (tr w))) \<and>
         frame opt bsr tasks w'"
proof (cases "index (Tasks (tr w)) 0")
  case (Inl e)
  then show ?thesis using assms
    by (auto simp: connectExternalInputChannels_def connectExternalInputChannels_events_def)
next
  case ft: (Inr firstTask)
  show ?thesis
  proof (cases "Inputs firstTask \<noteq> None")
    case True
    then show ?thesis using assms ft
      by (auto simp: connectExternalInputChannels_def connectExternalInputChannels_events_def)
  next
    case nil: False
    show ?thesis
    proof (cases "index (Outputs firstTask) 0")
      case (Inl e)
      then show ?thesis using assms ft nil
        by (auto simp: connectExternalInputChannels_def connectExternalInputChannels_events_def)
    next
      case (Inr shard)
      have loop: "for_range (connectExternalInputChannels_body E (Parent shard))
                    (enumerate 0 (ExternalInputChans (Parent shard))) w = (r, w')"
        using assms(2) ft nil Inr by (simp add: connectExternalInputChannels_def Let_def)
      from for_range_abs[where I = "frame opt bsr tasks"
            and f = "connectExternalInputChannels_item E opt bsr (Parent shard)", OF body1_abs assms(1) loop]
      show ?thesis using ft nil Inr by (simp add: connectExternalInputChannels_events_def)
    qed
  qed
qed

lemma phase1_unchanged:
  "index (Tasks (tr w)) 0 = Inr ft \<Longrightarrow> Inputs ft \<noteq> None \<Longrightarrow> connectExternalInputChannels E w = (None, w)"
  by (simp add: connectExternalInputChannels_def)

lemma phase2_abs:
  assumes "frame opt bsr tasks w" "connectExternalInputs E n2l w = (r, w')"
  shows "r = fst (connectExternalInputs_events E opt bsr n2l (Tasks (tr w))) \<and>
         trace w' = trace w @ snd (connectExternalInputs_events E opt bsr n2l (Tasks (tr w))) \<and>
         frame opt bsr tasks w'"
proof (cases "index (Tasks (tr w)) 0")
  case (Inl e)
  then show ?thesis using assms
    by (auto simp: connectExternalInputs_def connectExternalInputs_events_def)
next
  case ft: (Inr firstTask)
  have loop: "for_range (connectExternalInputs_body E n2l firstTask)
                (enumerate 0 (elems (Inputs firstTask))) w = (r, w')"
    using assms(2) ft by (simp add: connectExternalInputs_def)
  have body: "\<And>x w r w'. frame opt bsr tasks w \<Longrightarrow> connectExternalInputs_body E n2l firstTask x w = (r, w') \<Longrightarrow>
      r = fst (connectExternalInputs_item E opt bsr n2l firstTask x) \<and>
      trace w' = trace w @ snd (connectExternalInputs_item E opt bsr n2l firstTask x) \<and>
      frame opt bsr tasks w'"
    using body2_abs by blast
  from for_range_abs[where I = "frame opt bsr tasks"
        and f = "connectExternalInputs_item E opt bsr n2l firstTask", OF body assms(1) loop]
  show ?thesis using ft by (simp add: connectExternalInputs_events_def)
qed

lemma phase3_abs:
  assumes "frame opt bsr tasks w" "connectInternalInputsAndOutputs w = (r, w')"
  shows "r = fst (connectInternalInputsAndOutputs_events (Tasks (tr w))) \<and>
         trace w' = trace w @ snd (connectInternalInputsAndOutputs_events (Tasks (tr w))) \<and>
         frame opt bsr tasks w' \<and> Tasks (tr w') = Tasks (tr w)"
proof -
  have loop: "for_range connectInternalInputsAndOutputs_body (enumerate 0 (Tasks (tr w))) w = (r, w')"
    using assms(2) by (simp add: connectInternalInputsAndOutputs_def)
  have i: "frame opt bsr tasks w \<and> Tasks (tr w) = Tasks (tr w)" using assms(1) by simp
  from for_range_abs[where I = "\<lambda>v. frame opt bsr tasks v \<and> Tasks (tr v) = Tasks (tr w)"
        and f = "connectInternalInputsAndOutputs_item (Tasks (tr w))", OF body3_abs i loop]
  show ?thesis by (simp add: connectInternalInputsAndOutputs_events_def)
qed

lemma phase4_abs:
  assumes "frame opt bsr tasks w" "connectExternalOutputs E w = (r, w')"
  shows "r = fst (connectExternalOutputs_events E opt (Tasks (tr w))) \<and>
         trace w' = trace w @ snd (connectExternalOutputs_events E opt (Tasks (tr w))) \<and>
         frame opt bsr tasks w' \<and> Tasks (tr w') = Tasks (tr w)"
proof (cases "index (Tasks (tr w)) (int (length (Tasks (tr w))) - 1)")
  case (Inl e)
  then show ?thesis using assms
    by (auto simp: connectExternalOutputs_def connectExternalOutputs_events_def)
next
  case lt: (Inr lastTask)
  have loop: "for_range (connectExternalOutputs_body E) (Outputs lastTask) w = (r, w')"
    using assms(2) lt by (simp add: connectExternalOutputs_def)
  have i: "frame opt bsr tasks w \<and> Tasks (tr w) = Tasks (tr w)" using assms(1) by simp
  from for_range_abs[where I = "\<lambda>v. frame opt bsr tasks v \<and> Tasks (tr v) = Tasks (tr w)"
        and f = "connectExternalOutputs_item E opt", OF body4_abs i loop]
  show ?thesis using lt by (simp add: connectExternalOutputs_events_def)
qed


lemma run_items_cong:
  "map f xs = map g ys \<Longrightarrow> run_items f xs = run_items g ys"
proof (induction xs arbitrary: ys)
  case Nil
  then show ?case by simp
next
  case (Cons x xs)
  then obtain y ys' where ys: "ys = y # ys'" by (cases ys) auto
  with Cons.prems have "f x = g y" "map f xs = map g ys'" by auto
  with Cons.IH[of ys'] ys show ?case by (simp split: prod.splits option.splits)
qed

lemma index_map: "index (map f xs) i = map_sum id f (index xs i)"
  by (auto simp: index_def)

lemma index_shape:
  assumes "map f ts' = map f ts"
  shows "map_sum id f (index ts' i) = map_sum id f (index ts i)"
  using assms index_map[of f ts' i] index_map[of f ts i] by simp

lemma item3_shape:
  assumes i: "map Inputs ts' = map Inputs ts" and o: "map Outputs ts' = map Outputs ts"
  shows "connectInternalInputsAndOutputs_item ts' (i, t') = connectInternalInputsAndOutputs_item ts (i, t)"
proof -
  have len: "length ts' = length ts" using i by (metis length_map)
  have a: "map_sum id Outputs (index ts' (int i)) = map_sum id Outputs (index ts (int i))"
    using o by (rule index_shape)
  have b: "map_sum id Inputs (index ts' (int i + 1)) = map_sum id Inputs (index ts (int i + 1))"
    using i by (rule index_shape)
  show ?thesis
    using a b len
    by (cases "index ts' (int i)"; cases "index ts (int i)";
        cases "index ts' (int i + 1)"; cases "index ts (int i + 1)")
       (auto simp: connectInternalInputsAndOutputs_item_def split: sum.splits)
qed

lemma events3_shape:
  assumes i: "map Inputs ts' = map Inputs ts" and o: "map Outputs ts' = map Outputs ts"
  shows "connectInternalInputsAndOutputs_events ts' = connectInternalInputsAndOutputs_events ts"
proof -
  have len: "length ts' = length ts" using i by (metis length_map)
  have "map (connectInternalInputsAndOutputs_item ts') (enumerate 0 ts') =
        map (connectInternalInputsAndOutputs_item ts) (enumerate 0 ts)"
    using len item3_shape[OF i o]
    by (auto simp: list_eq_iff_nth_eq nth_enumerate_eq)
  then show ?thesis
    unfolding connectInternalInputsAndOutputs_events_def by (rule run_items_cong)
qed

lemma events4_shape:
  assumes i: "map Inputs ts' = map Inputs ts" and o: "map Outputs ts' = map Outputs ts"
  shows "connectExternalOutputs_events E opt ts' = connectExternalOutputs_events E opt ts"
proof -
  have len: "length ts' = length ts" using i by (metis length_map)
  have a: "map_sum id Outputs (index ts' (int (length ts) - 1)) = map_sum id Outputs (index ts (int (length ts) - 1))"
    using o by (rule index_shape)
  show ?thesis using a len
    by (cases "index ts' (int (length ts) - 1)"; cases "index ts (int (length ts) - 1)")
       (auto simp: connectExternalOutputs_events_def)
qed

lemma events2_shape:
  assumes i: "map Inputs ts' = map Inputs ts"
      and same: "\<And>ft. index ts 0 = Inr ft \<Longrightarrow> Inputs ft \<noteq> None \<Longrightarrow> ts' = ts"
  shows "connectExternalInputs_events E opt bsr n2l ts' = connectExternalInputs_events E opt bsr n2l ts"
proof (cases "index ts 0")
  case (Inl e)
  moreover have "map_sum id Inputs (index ts' 0) = map_sum id Inputs (index ts 0)"
    using i by (rule index_shape)
  ultimately show ?thesis
    by (cases "index ts' 0") (auto simp: connectExternalInputs_events_def)
next
  case (Inr ft)
  show ?thesis
  proof (cases "Inputs ft")
    case None
    have "map_sum id Inputs (index ts' 0) = map_sum id Inputs (index ts 0)"
      using i by (rule index_shape)
    with Inr None show ?thesis
      by (cases "index ts' 0") (auto simp: connectExternalInputs_events_def elems_def)
  next
    case (Some a)
    with same[OF Inr] show ?thesis by simp
  qed
qed

lemma wiring_abs:
  assumes "connectInputsAndOutputs E w = (r, w')"
  shows "r = fst (connectInputsAndOutputs_events E (option (tr w)) (bufferSize w) (Tasks (tr w))) \<and>
         trace w' = trace w @ snd (connectInputsAndOutputs_events E (option (tr w)) (bufferSize w) (Tasks (tr w))) \<and>
         frame (option (tr w)) (bufferSize w) (Tasks (tr w)) w'"
proof (cases "name2Location (option_Inputs (option (tr w)))")
  case (Inl e)
  then show ?thesis using assms
    by (auto simp: connectInputsAndOutputs_def connectInputsAndOutputs_events_def frame_def)
next
  case (Inr n2l)
  let ?opt = "option (tr w)" and ?bsr = "bufferSize w" and ?ts = "Tasks (tr w)"
  let ?F = "frame ?opt ?bsr ?ts"
  let ?e1 = "connectExternalInputChannels_events E ?opt ?bsr ?ts"
  let ?e2 = "connectExternalInputs_events E ?opt ?bsr n2l ?ts"
  let ?e3 = "connectInternalInputsAndOutputs_events ?ts"
  let ?e4 = "connectExternalOutputs_events E ?opt ?ts"
  have ev: "connectInputsAndOutputs_events E ?opt ?bsr ?ts = seq_items (seq_items (seq_items ?e1 ?e2) ?e3) ?e4"
    using Inr by (simp add: connectInputsAndOutputs_events_def)
  have run: "and_then (and_then (and_then (connectExternalInputChannels E w)
           (connectExternalInputs E n2l)) connectInternalInputsAndOutputs) (connectExternalOutputs E) = (r, w')"
    using assms Inr by (simp add: connectInputsAndOutputs_def)
  obtain r1 w1 where p1: "connectExternalInputChannels E w = (r1, w1)"
    by (cases "connectExternalInputChannels E w")
  have f0: "?F w" by (rule frame_refl)
  from phase1_abs[OF f0 p1] have a1: "r1 = fst ?e1" "trace w1 = trace w @ snd ?e1" "?F w1" by auto
  show ?thesis
  proof (cases r1)
    case (Some e)
    with run p1 have "r = Some e" "w' = w1" by (auto simp: and_then_def)
    with a1 Some ev show ?thesis by (cases ?e1) (auto simp: seq_items_def)
  next
    case n1: None
    have same1: "Tasks (tr w1) = ?ts" if "index ?ts 0 = Inr ft" "Inputs ft \<noteq> None" for ft
      using phase1_unchanged[OF that, of E] p1 by simp
    have sh1: "map Inputs (Tasks (tr w1)) = map Inputs ?ts" "map Outputs (Tasks (tr w1)) = map Outputs ?ts"
      using a1(3) by (auto simp: frame_def)
    obtain r2 w2 where p2: "connectExternalInputs E n2l w1 = (r2, w2)"
      by (cases "connectExternalInputs E n2l w1")
    from phase2_abs[OF a1(3) p2] events2_shape[OF sh1(1) same1]
    have a2: "r2 = fst ?e2" "trace w2 = trace w1 @ snd ?e2" "?F w2" by auto
    show ?thesis
    proof (cases r2)
      case (Some e)
      with run p1 p2 n1 have "r = Some e" "w' = w2" by (auto simp: and_then_def)
      with a1 a2 n1 Some ev show ?thesis by (cases ?e1; cases ?e2) (auto simp: seq_items_def)
    next
      case n2: None
      have sh2: "map Inputs (Tasks (tr w2)) = map Inputs ?ts" "map Outputs (Tasks (tr w2)) = map Outputs ?ts"
        using a2(3) by (auto simp: frame_def)
      obtain r3 w3 where p3: "connectInternalInputsAndOutputs w2 = (r3, w3)"
        by (cases "connectInternalInputsAndOutputs w2")
      from phase3_abs[OF a2(3) p3] events3_shape[OF sh2]
      have a3: "r3 = fst ?e3" "trace w3 = trace w2 @ snd ?e3" "?F w3" by auto
      show ?thesis
      proof (cases r3)
        case (Some e)
        with run p1 p2 p3 n1 n2 have "r = Some e" "w' = w3" by (auto simp: and_then_def)
        with a1 a2 a3 n1 n2 Some ev show ?thesis
          by (cases ?e1; cases ?e2; cases ?e3) (auto simp: seq_items_def)
      next
        case n3: None
        have sh3: "map Inputs (Tasks (tr w3)) = map Inputs ?ts" "map Outputs (Tasks (tr w3)) = map Outputs ?ts"
          using a3(3) by (auto simp: frame_def)
        have p4: "connectExternalOutputs E w3 = (r, w')"
          using run p1 p2 p3 n1 n2 n3 by (auto simp: and_then_def)
        from phase4_abs[OF a3(3) p4] events4_shape[OF sh3]
        have a4: "r = fst ?e4" "trace w' = trace w3 @ snd ?e4" "?F w'" by auto
        with a1 a2 a3 n1 n2 n3 ev show ?thesis
          by (cases ?e1; cases ?e2; cases ?e3; cases ?e4) (auto simp: seq_items_def)
      qed
    qed
  qed
qed

subsection \<open>Panics of the parsing step\<close>

text \<open>
  C9: for every inputs string that is not empty and has a comma-separated token with no
  \<^verbatim>\<open>@\<close>, the split of that token has one element, reading its index 1 is an
  index-out-of-range panic, and so the parsing step panics, \<^verbatim>\<open>connectInputsAndOutputs\<close>
  panics before it resolves anything, and \<^verbatim>\<open>Run\<close> on an accepted context panics.
\<close>

theorem malformed_inputs_panic:
  assumes "inputs \<noteq> []"
      and "t \<in> set (Split inputs CHR '','')"
      and "CHR ''@'' \<notin> set t"
  shows "length (Split t CHR ''@'') = 1 \<and>
         index (Split t CHR ''@'') 1 = Inl (IndexOutOfRange 1 1) \<and>
         name2Location inputs = Inl (IndexOutOfRange 1 1) \<and>
         (option_Inputs (option (tr w)) = inputs \<longrightarrow>
            connectInputsAndOutputs E w = (Some (IndexOutOfRange 1 1), w)) \<and>
         (option_Inputs (option (tr w)) = inputs \<and> fc_Id fc = ContextId (option (tr w)) \<longrightarrow>
            (\<exists>e. fst (Run E t0 sched fc w) = Panicked e))"
proof -
  have a: "Split t CHR ''@'' = [t]" using assms(3) by (rule Split_no_sep)
  have b: "name2Location inputs = Inl (IndexOutOfRange 1 1)"
    using assms name2Location_loop_panic[of "Split inputs CHR '',''" Map.empty]
    by (auto simp: name2Location_def)
  have c: "connectInputsAndOutputs E w' = (Some (IndexOutOfRange 1 1), w')"
    if "option_Inputs (option (tr w')) = inputs" for w'
    using that b by (simp add: connectInputsAndOutputs_def)
  have d: "\<exists>e. fst (Run E t0 sched fc w) = Panicked e"
    if "option_Inputs (option (tr w)) = inputs" "fc_Id fc = ContextId (option (tr w))"
  proof (cases "index (GroupTasks E (fc\<lparr>fc_ChannelBufferSize := ChannelBufferSize (option (tr w))\<rparr>))
                  (TaskGroupId (option (tr w)))")
    case (Inl e)
    then show ?thesis using that by (simp add: Run_def Run_main_def Let_def)
  next
    case (Inr tasks)
    let ?w3 = "set_StartTime t0 ((emit Call_GroupTasks w)\<lparr>tr := (tr (emit Call_GroupTasks w))
        \<lparr>Tasks := tasks,
         FlowContext := Some (fc\<lparr>fc_ChannelBufferSize := ChannelBufferSize (option (tr w))\<rparr>)\<rparr>\<rparr>)"
    have "option_Inputs (option (tr ?w3)) = inputs"
      using that by (simp add: set_StartTime_def emit_def)
    from c[OF this] show ?thesis using that Inr
      by (simp add: Run_def Run_main_def Let_def)
  qed
  show ?thesis using a b c d by (simp add: index_def)
qed

theorem malformed_inputs_panic_witness:
  "name2Location ''a@b,c'' = Inl (IndexOutOfRange 1 1) \<and>
   connectInputsAndOutputs ex_env (ex_world (ex_option\<lparr>option_Inputs := ''a@b,c''\<rparr>)) =
     (Some (IndexOutOfRange 1 1), ex_world (ex_option\<lparr>option_Inputs := ''a@b,c''\<rparr>)) \<and>
   fst (Run ex_env 5 [] ex_fc (ex_world (ex_option\<lparr>option_Inputs := ''a@b,c''\<rparr>))) =
     Panicked (IndexOutOfRange 1 1)"
proof -
  let ?w = "ex_world (ex_option\<lparr>option_Inputs := ''a@b,c''\<rparr>)"
  have 1: "''a@b,c'' \<noteq> []" by simp
  have 2: "''c'' \<in> set (Split ''a@b,c'' CHR '','')" by (simp add: Split.simps)
  have 3: "CHR ''@'' \<notin> set ''c''" by simp
  have 4: "option_Inputs (option (tr ?w)) = ''a@b,c''"
    by (simp add: ex_world_def ex_option_def NewTaskRunner_def)
  have 5: "fst (Run ex_env 5 [] ex_fc ?w) = Panicked (IndexOutOfRange 1 1)"
    by (simp add: Run_def Run_main_def Let_def ex_world_def ex_option_def NewTaskRunner_def
        ex_fc_def ex_env_def index_def emit_def set_StartTime_def connectInputsAndOutputs_def
        name2Location_def Split.simps)
  from malformed_inputs_panic[OF 1 2 3, of ?w ex_env] 4 5 show ?thesis by simp
qed

subsection \<open>Evaluating the examples\<close>

lemmas ex_defs = ex_wired_def ex_source_wired_def ex_fan_out_def ex_empty_inputs_def ex_world_def ex_option_def ex_fc_def ex_env_def ex_env_failing_def
  ex_tasks_def ex_shard_def ex_ds_def NewTaskRunner_def

lemmas events_defs = connectInputsAndOutputs_events_def connectExternalInputChannels_events_def
  connectExternalInputs_events_def connectInternalInputsAndOutputs_events_def
  connectExternalOutputs_events_def connectExternalInputChannels_item_def
  connectExternalInputs_item_def connectInternalInputsAndOutputs_item_def
  connectExternalOutputs_item_def seq_items_def name2Location_def index_def bufferSize_def
  shardChanName_def inputChanName_def lookup_def elems_def enumerate_eq_zip Let_def

lemma ex_failing_events:
  "connectInputsAndOutputs_events ex_env_failing (option (tr ex_wired)) (bufferSize ex_wired) (Tasks (tr ex_wired)) =
     (Some (LogPanic ''no agent''),
      [Call_GetDirectReadChannel ''job-s0'' [] 16,
       Spawn (DecodeAdapter 1 (Chan 10) ''int''),
       Call_SetupReadingChans (ex_shard ''s1'' 1),
       Spawn (Forwarder (ex_shard ''s1'' 1) (ex_shard ''s1'' 1) 0),
       Call_SetupReadingChans (ex_shard ''s2'' 2),
       Spawn (Forwarder (ex_shard ''s2'' 2) (ex_shard ''s2'' 2) 1),
       Call_GetLocalSendChannel ''job-s3''])"
  by (simp add: ex_defs events_defs upt_rec)

subsection \<open>A context that is not the runner's\<close>

text \<open>
  C2: when the identifier of the context differs from the option's \<^verbatim>\<open>ContextId\<close>,
  \<^verbatim>\<open>Run\<close> returns at once, under every schedule: the context is returned as it was
  (its buffer size is not written), and so is the world: the runner with its tasks and
  its \<^verbatim>\<open>ExecutorStatus\<close>, timestamps and status lists included, and the trace, to
  which no call of the planner, no resolution and no started unit is added.
\<close>

theorem Run_other_context:
  assumes "fc_Id fc \<noteq> ContextId (option (tr w))"
  shows "Run E t0 sched fc w = (Returned, fc, w) \<and> Run_main E t0 fc w = (Returned, fc, w)"
  using assms by (simp add: Run_def Run_main_def)

theorem Run_other_context_witness:
  "Run ex_env 5 [Main, Done 0, Tick] (ex_fc\<lparr>fc_Id := 4\<rparr>) (ex_world ex_option) =
     (Returned, ex_fc\<lparr>fc_Id := 4\<rparr>, ex_world ex_option)"
proof -
  have "fc_Id (ex_fc\<lparr>fc_Id := 4\<rparr>) \<noteq> ContextId (option (tr (ex_world ex_option)))"
    by (simp add: ex_defs)
  from Run_other_context[OF this] show ?thesis by simp
qed

subsection \<open>A resolution that fails\<close>

lemma good_None: "good E (None, evs) \<Longrightarrow> calls_ok E evs"
  by (cases evs rule: rev_cases) (auto simp: good_def calls_ok_def)

lemma good_append: "good E (None, a) \<Longrightarrow> good E (r, b) \<Longrightarrow> good E (r, a @ b)"
  using good_None[of E a]
  by (cases b rule: rev_cases) (auto simp: good_def calls_ok_def butlast_append)

lemma good_Nil: "good E (r, [])"
  by (simp add: good_def calls_ok_def)

lemma run_items_good:
  "(\<And>x. x \<in> set xs \<Longrightarrow> good E (f x)) \<Longrightarrow> good E (run_items f xs)"
proof (induction xs)
  case Nil
  then show ?case by (simp add: good_Nil)
next
  case (Cons x xs)
  have gx: "good E (f x)" using Cons.prems by simp
  have gr: "good E (run_items f xs)" using Cons by simp
  show ?case
  proof (cases "f x")
    case (Pair r evs)
    show ?thesis
    proof (cases r)
      case None
      obtain r' evs' where rr: "run_items f xs = (r', evs')" by (cases "run_items f xs")
      from good_append[of E evs r' evs'] gx gr Pair None rr show ?thesis by simp
    next
      case (Some e)
      with gx Pair show ?thesis by simp
    qed
  qed
qed

lemma seq_items_good: "good E a \<Longrightarrow> good E b \<Longrightarrow> good E (seq_items a b)"
proof -
  assume a: "good E a" and b: "good E b"
  obtain ra ea where pa: "a = (ra, ea)" by (cases a)
  obtain rb eb where pb: "b = (rb, eb)" by (cases b)
  show ?thesis
  proof (cases ra)
    case None
    with good_append[of E ea rb eb] a b pa pb show ?thesis by (simp add: seq_items_def)
  next
    case (Some e)
    with a pa show ?thesis by (simp add: seq_items_def)
  qed
qed

lemma item1_good: "good E (connectExternalInputChannels_item E opt bsr ds ic)"
  by (auto simp: connectExternalInputChannels_item_def good_def calls_ok_def Let_def split: sum.splits)

lemma item2_good: "good E (connectExternalInputs_item E opt bsr n2l ft ishard)"
  by (auto simp: connectExternalInputs_item_def good_def calls_ok_def Let_def split: sum.splits)

lemma item3_good: "good E (connectInternalInputsAndOutputs_item ts it)"
  by (auto simp: connectInternalInputsAndOutputs_item_def good_def calls_ok_def Let_def split: sum.splits)

lemma item4_good: "good E (connectExternalOutputs_item E opt shard)"
  by (auto simp: connectExternalOutputs_item_def good_def calls_ok_def Let_def split: sum.splits)

lemma wiring_good: "good E (connectInputsAndOutputs_events E opt bsr tasks)"
proof -
  have 1: "good E (connectExternalInputChannels_events E opt bsr tasks)"
    by (auto simp: connectExternalInputChannels_events_def good_Nil item1_good
        intro!: run_items_good split: sum.splits)
  have 2: "good E (connectExternalInputs_events E opt bsr n2l tasks)" for n2l
    by (auto simp: connectExternalInputs_events_def good_Nil item2_good
        intro!: run_items_good split: sum.splits)
  have 3: "good E (connectInternalInputsAndOutputs_events tasks)"
    by (auto simp: connectInternalInputsAndOutputs_events_def item3_good intro!: run_items_good)
  have 4: "good E (connectExternalOutputs_events E opt tasks)"
    by (auto simp: connectExternalOutputs_events_def good_Nil item4_good
        intro!: run_items_good split: sum.splits)
  show ?thesis
    using 1 2 3 4
    by (auto simp: connectInputsAndOutputs_events_def good_Nil intro!: seq_items_good split: sum.splits)
qed

text \<open>
  C7: whenever a resolution call made during the wiring (remote read, local read or
  local write) returns an error, the wiring panics with that error, as \<^verbatim>\<open>log.Panic\<close>
  does, and the failing call is the last event of the trace: nothing is resolved again
  and no unit is connected after it, so the wiring does not complete.
\<close>

theorem resolution_failure_is_fatal:
  assumes run: "connectInputsAndOutputs E w = (r, w')"
      and k: "length (trace w) \<le> k" "k < length (trace w')"
      and fail: "call_error E (trace w' ! k) = Some e"
    shows "r = Some (LogPanic e) \<and> Suc k = length (trace w') \<and>
           take (length (trace w)) (trace w') = trace w"
proof -
  let ?res = "connectInputsAndOutputs_events E (option (tr w)) (bufferSize w) (Tasks (tr w))"
  from wiring_abs[OF run] have r: "r = fst ?res" and t: "trace w' = trace w @ snd ?res" by auto
  have g: "good E ?res" by (rule wiring_good)
  let ?new = "snd ?res"
  let ?j = "k - length (trace w)"
  have j: "?j < length ?new" using k t by simp
  have ev: "trace w' ! k = ?new ! ?j" using k t by (simp add: nth_append)
  have last: "Suc ?j = length ?new"
  proof (rule ccontr)
    assume "Suc ?j \<noteq> length ?new"
    with j have "?j < length (butlast ?new)" by simp
    then have "?new ! ?j \<in> set (butlast ?new)"
      by (metis nth_butlast nth_mem)
    with g have "call_error E (?new ! ?j) = None" by (simp add: good_def calls_ok_def)
    with fail ev show False by simp
  qed
  then have ne: "?new \<noteq> []" by auto
  have "length ?new - 1 = ?j" using last by arith
  with last_conv_nth[OF ne] have "last ?new = ?new ! ?j" by simp
  with ne g fail ev have "fst ?res = Some (LogPanic e)" by (simp add: good_def)
  with r last k t show ?thesis by simp
qed

theorem resolution_failure_is_fatal_witness:
  "fst (connectInputsAndOutputs ex_env_failing ex_wired) = Some (LogPanic ''no agent'') \<and>
   length (trace (snd (connectInputsAndOutputs ex_env_failing ex_wired))) = 7 \<and>
   call_error ex_env_failing (trace (snd (connectInputsAndOutputs ex_env_failing ex_wired)) ! 6) =
     Some ''no agent''"
proof -
  let ?res = "connectInputsAndOutputs ex_env_failing ex_wired"
  have run: "?res = (fst ?res, snd ?res)" by simp
  have t0: "trace ex_wired = []" by (simp add: ex_wired_def)
  from wiring_abs[OF run] ex_failing_events t0
  have tr: "trace (snd ?res) =
      [Call_GetDirectReadChannel ''job-s0'' [] 16,
       Spawn (DecodeAdapter 1 (Chan 10) ''int''),
       Call_SetupReadingChans (ex_shard ''s1'' 1),
       Spawn (Forwarder (ex_shard ''s1'' 1) (ex_shard ''s1'' 1) 0),
       Call_SetupReadingChans (ex_shard ''s2'' 2),
       Spawn (Forwarder (ex_shard ''s2'' 2) (ex_shard ''s2'' 2) 1),
       Call_GetLocalSendChannel ''job-s3'']" by simp
  have k1: "length (trace ex_wired) \<le> 6" using t0 by simp
  have k2: "6 < length (trace (snd ?res))" using tr by simp
  have f: "call_error ex_env_failing (trace (snd ?res) ! 6) = Some ''no agent''"
    using tr by (simp add: ex_env_failing_def ex_env_def)
  from resolution_failure_is_fatal[OF run k1 k2 f] f show ?thesis by simp
qed

subsection \<open>Channel names\<close>

lemma run_items_fst_snd:
  "fst (run_items f (x # xs)) = (if fst (f x) = None then fst (run_items f xs) else fst (f x))"
  "snd (run_items f (x # xs)) = (if fst (f x) = None then snd (f x) @ snd (run_items f xs) else snd (f x))"
  by (auto split: prod.splits option.splits)

lemma seq_items_fst_snd:
  "fst (seq_items a b) = (if fst a = None then fst b else fst a)"
  "snd (seq_items a b) = (if fst a = None then snd a @ snd b else snd a)"
  by (auto simp: seq_items_def split: prod.splits option.splits)

lemma run_items_names:
  assumes app: "\<And>a b. N (a @ b) = N a @ N b" and nil: "N [] = []"
      and item: "\<And>x. x \<in> set xs \<Longrightarrow> N (snd (f x)) = [g x] \<or> (N (snd (f x)) = [] \<and> fst (f x) \<noteq> None)"
  shows "\<exists>k \<le> length xs. N (snd (run_items f xs)) = take k (map g xs) \<and>
           (fst (run_items f xs) = None \<longrightarrow> k = length xs)"
  using item
proof (induction xs)
  case Nil
  then show ?case by (simp add: nil)
next
  case (Cons x xs)
  then obtain k where k: "k \<le> length xs" "N (snd (run_items f xs)) = take k (map g xs)"
      "fst (run_items f xs) = None \<longrightarrow> k = length xs" by auto
  from Cons.prems[of x] consider
      (one) "N (snd (f x)) = [g x]" "fst (f x) = None"
    | (fail1) "N (snd (f x)) = [g x]" "fst (f x) \<noteq> None"
    | (fail0) "N (snd (f x)) = []" "fst (f x) \<noteq> None" by auto
  then show ?case
  proof cases
    case one
    with k show ?thesis
      by (intro exI[of _ "Suc k"]) (simp add: run_items_fst_snd app del: run_items.simps(2))
  next
    case fail1
    then show ?thesis
      by (intro exI[of _ "Suc 0"]) (auto simp add: run_items_fst_snd simp del: run_items.simps(2))
  next
    case fail0
    then show ?thesis
      by (intro exI[of _ 0]) (auto simp add: run_items_fst_snd simp del: run_items.simps(2))
  qed
qed

lemma run_items_no_names:
  assumes app: "\<And>a b. N (a @ b) = N a @ N b" and nil: "N [] = []"
      and item: "\<And>x. N (snd (f x)) = []"
  shows "N (snd (run_items f xs)) = []"
  by (induction xs) (simp_all add: run_items_fst_snd app nil item del: run_items.simps(2))

lemma direct_read_names_append: "direct_read_names (a @ b) = direct_read_names a @ direct_read_names b"
  by (induction a rule: direct_read_names.induct) simp_all

lemma local_read_names_append: "local_read_names (a @ b) = local_read_names a @ local_read_names b"
  by (induction a rule: local_read_names.induct) simp_all

lemma local_send_names_append: "local_send_names (a @ b) = local_send_names a @ local_send_names b"
  by (induction a rule: local_send_names.induct) simp_all

lemma spawned_append: "spawned (a @ b) = spawned a @ spawned b"
  by (induction a rule: spawned.induct) simp_all



lemma run_items_no_direct:
  "(\<And>x. direct_read_names (snd (f x)) = []) \<Longrightarrow> direct_read_names (snd (run_items f xs)) = []"
  by (rule run_items_no_names[of direct_read_names, OF direct_read_names_append]) simp_all

lemma run_items_no_local:
  "(\<And>x. local_read_names (snd (f x)) = []) \<Longrightarrow> local_read_names (snd (run_items f xs)) = []"
  by (rule run_items_no_names[of local_read_names, OF local_read_names_append]) simp_all

lemma run_items_no_send:
  "(\<And>x. local_send_names (snd (f x)) = []) \<Longrightarrow> local_send_names (snd (run_items f xs)) = []"
  by (rule run_items_no_names[of local_send_names, OF local_send_names_append]) simp_all

lemma item1_names:
  "direct_read_names (snd (connectExternalInputChannels_item E opt bsr ds ic)) = []"
  "local_send_names (snd (connectExternalInputChannels_item E opt bsr ds ic)) = []"
  "local_read_names (snd (connectExternalInputChannels_item E opt bsr ds ic)) = [inputChanName opt ds (fst ic)] \<or>
     (local_read_names (snd (connectExternalInputChannels_item E opt bsr ds ic)) = [] \<and>
      fst (connectExternalInputChannels_item E opt bsr ds ic) \<noteq> None)"
  by (auto simp: connectExternalInputChannels_item_def Let_def split: sum.splits)

lemma item2_names:
  "local_read_names (snd (connectExternalInputs_item E opt bsr n2l ft ishard)) = []"
  "local_send_names (snd (connectExternalInputs_item E opt bsr n2l ft ishard)) = []"
  "direct_read_names (snd (connectExternalInputs_item E opt bsr n2l ft ishard)) = [shardChanName opt (snd ishard)] \<or>
     (direct_read_names (snd (connectExternalInputs_item E opt bsr n2l ft ishard)) = [] \<and>
      fst (connectExternalInputs_item E opt bsr n2l ft ishard) \<noteq> None)"
  by (auto simp: connectExternalInputs_item_def Let_def split: sum.splits)

lemma item3_names:
  "local_read_names (snd (connectInternalInputsAndOutputs_item ts it)) = []"
  "local_send_names (snd (connectInternalInputsAndOutputs_item ts it)) = []"
  "direct_read_names (snd (connectInternalInputsAndOutputs_item ts it)) = []"
  by (auto simp: connectInternalInputsAndOutputs_item_def Let_def split: sum.splits)

lemma item4_names:
  "local_read_names (snd (connectExternalOutputs_item E opt shard)) = []"
  "direct_read_names (snd (connectExternalOutputs_item E opt shard)) = []"
  "local_send_names (snd (connectExternalOutputs_item E opt shard)) = [shardChanName opt shard]"
  by (auto simp: connectExternalOutputs_item_def Let_def split: sum.splits)

lemma map_fst_enumerate: "map (\<lambda>x. g (fst x)) (enumerate 0 xs) = map g [0..<length xs]"
  by (rule nth_equalityI) (simp_all add: nth_enumerate_eq)

lemma map_snd_enumerate: "map (\<lambda>x. g (snd x)) (enumerate 0 xs) = map g xs"
  by (rule nth_equalityI) (simp_all add: nth_enumerate_eq)

lemma index_0_Cons: "index (x # xs) 0 = Inr x"
  by (simp add: index_def)

lemma index_last: "index (x # xs) (int (length (x # xs)) - 1) = Inr (last (x # xs))"
  by (simp add: index_def last_conv_nth)

lemma events1_names:
  "direct_read_names (snd (connectExternalInputChannels_events E opt bsr ts)) = []"
  "local_send_names (snd (connectExternalInputChannels_events E opt bsr ts)) = []"
  "\<exists>k. local_read_names (snd (connectExternalInputChannels_events E opt bsr (ft # rest))) = take k (names1 opt ft) \<and>
       (fst (connectExternalInputChannels_events E opt bsr (ft # rest)) = None \<longrightarrow>
          local_read_names (snd (connectExternalInputChannels_events E opt bsr (ft # rest))) = names1 opt ft)"
proof -
  show "direct_read_names (snd (connectExternalInputChannels_events E opt bsr ts)) = []"
    by (simp add: connectExternalInputChannels_events_def run_items_no_direct item1_names split: sum.splits)
  show "local_send_names (snd (connectExternalInputChannels_events E opt bsr ts)) = []"
    by (simp add: connectExternalInputChannels_events_def run_items_no_send item1_names split: sum.splits)
  show "\<exists>k. local_read_names (snd (connectExternalInputChannels_events E opt bsr (ft # rest))) = take k (names1 opt ft) \<and>
       (fst (connectExternalInputChannels_events E opt bsr (ft # rest)) = None \<longrightarrow>
          local_read_names (snd (connectExternalInputChannels_events E opt bsr (ft # rest))) = names1 opt ft)"
  proof (cases "Inputs ft")
    case (Some a)
    then show ?thesis
      by (simp add: connectExternalInputChannels_events_def index_0_Cons names1_def)
  next
    case None
    show ?thesis
    proof (cases "Outputs ft")
      case Nil
      with None show ?thesis
        by (simp add: connectExternalInputChannels_events_def index_0_Cons names1_def index_def)
    next
      case (Cons shard ss)
      let ?ds = "Parent shard"
      let ?xs = "enumerate 0 (ExternalInputChans ?ds)"
      let ?f = "connectExternalInputChannels_item E opt bsr ?ds"
      have ev: "connectExternalInputChannels_events E opt bsr (ft # rest) = run_items ?f ?xs"
        using None Cons by (simp add: connectExternalInputChannels_events_def index_0_Cons)
      have nm: "names1 opt ft = map (\<lambda>x. inputChanName opt ?ds (fst x)) ?xs"
        using None Cons by (simp add: names1_def map_fst_enumerate)
      from run_items_names[of local_read_names ?xs ?f "\<lambda>x. inputChanName opt ?ds (fst x)",
          OF local_read_names_append _ item1_names(3)]
      obtain k where "k \<le> length ?xs"
          "local_read_names (snd (run_items ?f ?xs)) = take k (map (\<lambda>x. inputChanName opt ?ds (fst x)) ?xs)"
          "fst (run_items ?f ?xs) = None \<longrightarrow> k = length ?xs" by auto
      then show ?thesis unfolding ev nm by (intro exI[of _ k]) auto
    qed
  qed
qed

lemma events2_names:
  "local_read_names (snd (connectExternalInputs_events E opt bsr n2l ts)) = []"
  "local_send_names (snd (connectExternalInputs_events E opt bsr n2l ts)) = []"
  "\<exists>k. direct_read_names (snd (connectExternalInputs_events E opt bsr n2l (ft # rest))) =
          take k (map (shardChanName opt) (elems (Inputs ft))) \<and>
       (fst (connectExternalInputs_events E opt bsr n2l (ft # rest)) = None \<longrightarrow>
          direct_read_names (snd (connectExternalInputs_events E opt bsr n2l (ft # rest))) =
            map (shardChanName opt) (elems (Inputs ft)))"
proof -
  show "local_read_names (snd (connectExternalInputs_events E opt bsr n2l ts)) = []"
    by (simp add: connectExternalInputs_events_def run_items_no_local item2_names split: sum.splits)
  show "local_send_names (snd (connectExternalInputs_events E opt bsr n2l ts)) = []"
    by (simp add: connectExternalInputs_events_def run_items_no_send item2_names split: sum.splits)
  let ?xs = "enumerate 0 (elems (Inputs ft))"
  let ?f = "connectExternalInputs_item E opt bsr n2l ft"
  have ev: "connectExternalInputs_events E opt bsr n2l (ft # rest) = run_items ?f ?xs"
    by (simp add: connectExternalInputs_events_def index_0_Cons)
  have nm: "map (shardChanName opt) (elems (Inputs ft)) = map (\<lambda>x. shardChanName opt (snd x)) ?xs"
    by (simp add: map_snd_enumerate)
  from run_items_names[of direct_read_names ?xs ?f "\<lambda>x. shardChanName opt (snd x)",
      OF direct_read_names_append _ item2_names(3)]
  obtain k where "k \<le> length ?xs"
      "direct_read_names (snd (run_items ?f ?xs)) = take k (map (\<lambda>x. shardChanName opt (snd x)) ?xs)"
      "fst (run_items ?f ?xs) = None \<longrightarrow> k = length ?xs" by auto
  then show "\<exists>k. direct_read_names (snd (connectExternalInputs_events E opt bsr n2l (ft # rest))) =
          take k (map (shardChanName opt) (elems (Inputs ft))) \<and>
       (fst (connectExternalInputs_events E opt bsr n2l (ft # rest)) = None \<longrightarrow>
          direct_read_names (snd (connectExternalInputs_events E opt bsr n2l (ft # rest))) =
            map (shardChanName opt) (elems (Inputs ft)))"
    unfolding ev nm by (intro exI[of _ k]) auto
qed

lemma events3_names:
  "local_read_names (snd (connectInternalInputsAndOutputs_events ts)) = []"
  "local_send_names (snd (connectInternalInputsAndOutputs_events ts)) = []"
  "direct_read_names (snd (connectInternalInputsAndOutputs_events ts)) = []"
  by (simp_all add: connectInternalInputsAndOutputs_events_def item3_names
      run_items_no_direct run_items_no_local run_items_no_send)

lemma events4_names:
  "local_read_names (snd (connectExternalOutputs_events E opt ts)) = []"
  "direct_read_names (snd (connectExternalOutputs_events E opt ts)) = []"
  "\<exists>k. local_send_names (snd (connectExternalOutputs_events E opt (ft # rest))) =
          take k (map (shardChanName opt) (Outputs (last (ft # rest)))) \<and>
       (fst (connectExternalOutputs_events E opt (ft # rest)) = None \<longrightarrow>
          local_send_names (snd (connectExternalOutputs_events E opt (ft # rest))) =
            map (shardChanName opt) (Outputs (last (ft # rest))))"
proof -
  show "local_read_names (snd (connectExternalOutputs_events E opt ts)) = []"
    by (simp add: connectExternalOutputs_events_def run_items_no_local item4_names split: sum.splits)
  show "direct_read_names (snd (connectExternalOutputs_events E opt ts)) = []"
    by (simp add: connectExternalOutputs_events_def run_items_no_direct item4_names split: sum.splits)
  let ?xs = "Outputs (last (ft # rest))"
  let ?f = "connectExternalOutputs_item E opt"
  have ev: "connectExternalOutputs_events E opt (ft # rest) = run_items ?f ?xs"
    using index_last[of ft rest] by (simp add: connectExternalOutputs_events_def)
  from run_items_names[of local_send_names ?xs ?f "shardChanName opt",
      OF local_send_names_append] item4_names(3)
  obtain k where "k \<le> length ?xs"
      "local_send_names (snd (run_items ?f ?xs)) = take k (map (shardChanName opt) ?xs)"
      "fst (run_items ?f ?xs) = None \<longrightarrow> k = length ?xs" by auto
  then show "\<exists>k. local_send_names (snd (connectExternalOutputs_events E opt (ft # rest))) =
          take k (map (shardChanName opt) (Outputs (last (ft # rest)))) \<and>
       (fst (connectExternalOutputs_events E opt (ft # rest)) = None \<longrightarrow>
          local_send_names (snd (connectExternalOutputs_events E opt (ft # rest))) =
            map (shardChanName opt) (Outputs (last (ft # rest))))"
    unfolding ev by (intro exI[of _ k]) auto
qed

lemma ex_source_events:
  "connectInputsAndOutputs_events ex_env (option (tr ex_source_wired)) (bufferSize ex_source_wired)
      (Tasks (tr ex_source_wired)) =
     (None,
      [Call_GetLocalReadChannel ''job-ct-3-input-7-p-0'' 16, Call_make_chan (MadeChan 0),
       Spawn (DecodeAdapter 2 (MadeChan 0) ''int''),
       Call_GetLocalReadChannel ''job-ct-3-input-7-p-1'' 16, Call_make_chan (MadeChan 1),
       Spawn (DecodeAdapter 2 (MadeChan 1) ''int''),
       Call_GetLocalSendChannel ''job-s1'',
       Spawn (EncodeAdapter (Chan 1) 3)])"
  by (simp add: ex_defs events_defs upt_rec Sprintf_d_def decimal.simps digit_def)

text \<open>
  C8: under a group with a first task, the names the wiring asks the collaborator for
  are, in order and up to the point where the wiring stops: for remote reads, the
  executable file hash, a dash and the shard's name, for each input shard of the first
  task; for local writes, the same form for each output shard of the last task; for
  local reads, hash \<^verbatim>\<open>-ct-\<close> context id \<^verbatim>\<open>-input-\<close> dataset id \<^verbatim>\<open>-p-\<close> index, for
  each external input of the dataset of a source stage. When the wiring completes, all
  of these names have been asked for.
\<close>

theorem channel_names:
  assumes run: "connectInputsAndOutputs E w = (r, w')"
      and tasks: "Tasks (tr w) = firstTask # rest"
  shows "\<exists>new k1 k2 k4.
     trace w' = trace w @ new \<and>
     direct_read_names new =
       take k2 (map (\<lambda>shard. ExecutableFileHash (option (tr w)) @ ''-'' @ Name shard)
                  (elems (Inputs firstTask))) \<and>
     local_send_names new =
       take k4 (map (\<lambda>shard. ExecutableFileHash (option (tr w)) @ ''-'' @ Name shard)
                  (Outputs (last (firstTask # rest)))) \<and>
     local_read_names new =
       take k1 (case (Inputs firstTask, Outputs firstTask) of
          (None, shard # _) \<Rightarrow>
            map (\<lambda>i. ExecutableFileHash (option (tr w)) @ ''-ct-'' @
                      Sprintf_d (ContextId (option (tr w))) @ ''-input-'' @
                      Sprintf_d (ds_Id (Parent shard)) @ ''-p-'' @ Sprintf_d (int i))
              [0..<length (ExternalInputChans (Parent shard))]
        | _ \<Rightarrow> []) \<and>
     (r = None \<longrightarrow>
        k2 = length (elems (Inputs firstTask)) \<and>
        k4 = length (Outputs (last (firstTask # rest))) \<and>
        (Inputs firstTask = None \<longrightarrow> k1 = length (ExternalInputChans (Parent (hd (Outputs firstTask))))))"
proof -
  let ?opt = "option (tr w)" and ?bsr = "bufferSize w" and ?ts = "firstTask # rest"
  let ?res = "connectInputsAndOutputs_events E ?opt ?bsr ?ts"
  let ?L2 = "map (shardChanName ?opt) (elems (Inputs firstTask))"
  let ?L4 = "map (shardChanName ?opt) (Outputs (last ?ts))"
  let ?L1 = "names1 ?opt firstTask"
  from wiring_abs[OF run] tasks have r: "r = fst ?res" and t: "trace w' = trace w @ snd ?res" by auto
  have main: "\<exists>k1 k2 k4.
      direct_read_names (snd ?res) = take k2 ?L2 \<and>
      local_send_names (snd ?res) = take k4 ?L4 \<and>
      local_read_names (snd ?res) = take k1 ?L1 \<and>
      (fst ?res = None \<longrightarrow> k2 = length ?L2 \<and> k4 = length ?L4 \<and> k1 = length ?L1)"
  proof (cases "name2Location (option_Inputs ?opt)")
    case (Inl e)
    then show ?thesis
      by (intro exI[of _ 0]) (simp add: connectInputsAndOutputs_events_def)
  next
    case (Inr n2l)
    let ?e1 = "connectExternalInputChannels_events E ?opt ?bsr ?ts"
    let ?e2 = "connectExternalInputs_events E ?opt ?bsr n2l ?ts"
    let ?e3 = "connectInternalInputsAndOutputs_events ?ts"
    let ?e4 = "connectExternalOutputs_events E ?opt ?ts"
    have ev: "?res = seq_items (seq_items (seq_items ?e1 ?e2) ?e3) ?e4"
      using Inr by (simp add: connectInputsAndOutputs_events_def)
    from events1_names(3)[of E ?opt ?bsr firstTask rest]
    obtain k1 where k1': "local_read_names (snd ?e1) = take k1 ?L1 \<and>
        (fst ?e1 = None \<longrightarrow> local_read_names (snd ?e1) = ?L1)" ..
    note k1 = conjunct1[OF k1'] conjunct2[OF k1']
    from events2_names(3)[of E ?opt ?bsr n2l firstTask rest]
    obtain k2 where k2': "direct_read_names (snd ?e2) = take k2 ?L2 \<and>
        (fst ?e2 = None \<longrightarrow> direct_read_names (snd ?e2) = ?L2)" ..
    note k2 = conjunct1[OF k2'] conjunct2[OF k2']
    from events4_names(3)[of E ?opt firstTask rest]
    obtain k4 where k4': "local_send_names (snd ?e4) = take k4 ?L4 \<and>
        (fst ?e4 = None \<longrightarrow> local_send_names (snd ?e4) = ?L4)" ..
    note k4 = conjunct1[OF k4'] conjunct2[OF k4']
    have d: "direct_read_names (snd ?res) = (if fst ?e1 = None then direct_read_names (snd ?e2) else [])"
      unfolding ev
      by (auto simp add: seq_items_fst_snd direct_read_names_append events1_names events3_names events4_names)
    have l: "local_read_names (snd ?res) = local_read_names (snd ?e1)"
      unfolding ev
      by (auto simp add: seq_items_fst_snd local_read_names_append events2_names events3_names events4_names)
    have s: "local_send_names (snd ?res) =
        (if fst ?e1 = None \<and> fst ?e2 = None \<and> fst ?e3 = None then local_send_names (snd ?e4) else [])"
      unfolding ev
      by (auto simp add: seq_items_fst_snd local_send_names_append events1_names events2_names events3_names)
    have f: "fst ?res = None \<longleftrightarrow> fst ?e1 = None \<and> fst ?e2 = None \<and> fst ?e3 = None \<and> fst ?e4 = None"
      unfolding ev by (auto simp add: seq_items_fst_snd)
    let ?k1 = "if fst ?e1 = None then length ?L1 else k1"
    let ?k2 = "if fst ?e1 = None then (if fst ?e2 = None then length ?L2 else k2) else 0"
    let ?k4 = "if fst ?e1 = None \<and> fst ?e2 = None \<and> fst ?e3 = None
               then (if fst ?e4 = None then length ?L4 else k4) else 0"
    have A: "direct_read_names (snd ?res) = take ?k2 ?L2" using d k2 by simp
    have B: "local_send_names (snd ?res) = take ?k4 ?L4" using s k4 by simp
    have C: "local_read_names (snd ?res) = take ?k1 ?L1" using l k1 by simp
    have D: "fst ?res = None \<longrightarrow> ?k2 = length ?L2 \<and> ?k4 = length ?L4 \<and> ?k1 = length ?L1"
      using f by simp
    show ?thesis
      by (rule exI[of _ ?k1], rule exI[of _ ?k2], rule exI[of _ ?k4]) (intro conjI A B C D)
  qed
  then obtain k1 where "\<exists>k2 k4.
      direct_read_names (snd ?res) = take k2 ?L2 \<and>
      local_send_names (snd ?res) = take k4 ?L4 \<and>
      local_read_names (snd ?res) = take k1 ?L1 \<and>
      (fst ?res = None \<longrightarrow> k2 = length ?L2 \<and> k4 = length ?L4 \<and> k1 = length ?L1)" ..
  then obtain k2 where "\<exists>k4.
      direct_read_names (snd ?res) = take k2 ?L2 \<and>
      local_send_names (snd ?res) = take k4 ?L4 \<and>
      local_read_names (snd ?res) = take k1 ?L1 \<and>
      (fst ?res = None \<longrightarrow> k2 = length ?L2 \<and> k4 = length ?L4 \<and> k1 = length ?L1)" ..
  then obtain k4 where kk:
     "direct_read_names (snd ?res) = take k2 ?L2 \<and>
      local_send_names (snd ?res) = take k4 ?L4 \<and>
      local_read_names (snd ?res) = take k1 ?L1 \<and>
      (fst ?res = None \<longrightarrow> k2 = length ?L2 \<and> k4 = length ?L4 \<and> k1 = length ?L1)" ..
  note k = conjunct1[OF kk] conjunct1[OF conjunct2[OF kk]] conjunct1[OF conjunct2[OF conjunct2[OF kk]]]
    conjunct2[OF conjunct2[OF conjunct2[OF kk]]]
  have L1: "?L1 = (case (Inputs firstTask, Outputs firstTask) of
          (None, shard # _) \<Rightarrow>
            map (\<lambda>i. ExecutableFileHash ?opt @ ''-ct-'' @
                      Sprintf_d (ContextId ?opt) @ ''-input-'' @
                      Sprintf_d (ds_Id (Parent shard)) @ ''-p-'' @ Sprintf_d (int i))
              [0..<length (ExternalInputChans (Parent shard))]
        | _ \<Rightarrow> [])"
  proof -
    have "inputChanName ?opt ds = (\<lambda>i. ExecutableFileHash ?opt @ ''-ct-'' @
                      Sprintf_d (ContextId ?opt) @ ''-input-'' @
                      Sprintf_d (ds_Id ds) @ ''-p-'' @ Sprintf_d (int i))" for ds
      by (rule ext) (simp add: inputChanName_def)
    then show ?thesis by (simp add: names1_def split: option.splits list.splits)
  qed
  have len1: "Inputs firstTask = None \<Longrightarrow> length ?L1 = length (ExternalInputChans (Parent (hd (Outputs firstTask)))) \<or> Outputs firstTask = []"
    by (simp add: names1_def split: list.splits)
  have noout: "fst ?res = None \<Longrightarrow> Inputs firstTask = None \<Longrightarrow> Outputs firstTask \<noteq> []"
    by (auto simp: connectInputsAndOutputs_events_def connectExternalInputChannels_events_def
        seq_items_fst_snd index_def split: sum.splits if_splits)
  have M: "shardChanName ?opt = (\<lambda>shard. ExecutableFileHash ?opt @ ''-'' @ Name shard)"
    by (rule ext) (simp add: shardChanName_def)
  have F1: "direct_read_names (snd ?res) =
       take k2 (map (\<lambda>shard. ExecutableFileHash ?opt @ ''-'' @ Name shard) (elems (Inputs firstTask)))"
    using k(1) unfolding M by simp
  have F2: "local_send_names (snd ?res) =
       take k4 (map (\<lambda>shard. ExecutableFileHash ?opt @ ''-'' @ Name shard) (Outputs (last ?ts)))"
    using k(2) unfolding M by simp
  have F3: "local_read_names (snd ?res) =
       take k1 (case (Inputs firstTask, Outputs firstTask) of
          (None, shard # _) \<Rightarrow>
            map (\<lambda>i. ExecutableFileHash ?opt @ ''-ct-'' @
                      Sprintf_d (ContextId ?opt) @ ''-input-'' @
                      Sprintf_d (ds_Id (Parent shard)) @ ''-p-'' @ Sprintf_d (int i))
              [0..<length (ExternalInputChans (Parent shard))]
        | _ \<Rightarrow> [])"
    using k(3) L1 by simp
  have F4: "r = None \<longrightarrow>
        k2 = length (elems (Inputs firstTask)) \<and>
        k4 = length (Outputs (last ?ts)) \<and>
        (Inputs firstTask = None \<longrightarrow> k1 = length (ExternalInputChans (Parent (hd (Outputs firstTask)))))"
    using k(4) r len1 noout by auto
  show ?thesis
    by (rule exI[of _ "snd ?res"], rule exI[of _ k1], rule exI[of _ k2], rule exI[of _ k4])
       (intro conjI t F1 F2 F3 F4)
qed

theorem channel_names_witness:
  "local_read_names (trace (snd (connectInputsAndOutputs ex_env ex_source_wired))) =
     [''job-ct-3-input-7-p-0'', ''job-ct-3-input-7-p-1''] \<and>
   local_send_names (trace (snd (connectInputsAndOutputs ex_env ex_source_wired))) = [''job-s1''] \<and>
   direct_read_names (trace (snd (connectInputsAndOutputs ex_env ex_source_wired))) = []"
proof -
  let ?res = "connectInputsAndOutputs ex_env ex_source_wired"
  let ?ft = "\<lparr>Inputs = None, Outputs = [ex_shard ''s1'' 1], InputChans = []\<rparr>"
  have run: "?res = (fst ?res, snd ?res)" by simp
  have tasks: "Tasks (tr ex_source_wired) = ?ft # []"
    by (simp add: ex_source_wired_def NewTaskRunner_def)
  have t0: "trace ex_source_wired = []" by (simp add: ex_source_wired_def)
  have ok: "fst ?res = None" using wiring_abs[OF run] ex_source_events by simp
  from channel_names[OF run tasks] ok t0 show ?thesis
    by (clarsimp simp add: ex_defs elems_def upt_rec Sprintf_d_def
        decimal.simps digit_def)
qed

subsection \<open>The output status\<close>

lemma item4_None:
  "fst (connectExternalOutputs_item E opt s) = None \<Longrightarrow>
   \<exists>rawChan. GetLocalSendChannel E (shardChanName opt s) = Inr rawChan \<and>
      snd (connectExternalOutputs_item E opt s) =
        [Call_GetLocalSendChannel (shardChanName opt s), Spawn (EncodeAdapter (WriteChan s) rawChan)]"
  by (auto simp: connectExternalOutputs_item_def Let_def split: sum.splits)

lemma concat_pairs:
  "(\<And>x. x \<in> set xs \<Longrightarrow> length (h x) = 2) \<Longrightarrow>
   length (concat (map h xs)) = 2 * length xs \<and>
   (i < length xs \<longrightarrow> concat (map h xs) ! (2 * i) = h (xs ! i) ! 0 \<and>
                      concat (map h xs) ! (2 * i + 1) = h (xs ! i) ! 1)"
proof (induction xs arbitrary: i)
  case Nil
  then show ?case by simp
next
  case (Cons x xs)
  have lx: "length (h x) = 2" using Cons.prems by simp
  have ih: "length (concat (map h xs)) = 2 * length xs \<and>
   (j < length xs \<longrightarrow> concat (map h xs) ! (2 * j) = h (xs ! j) ! 0 \<and>
                      concat (map h xs) ! (2 * j + 1) = h (xs ! j) ! 1)" for j
    using Cons.IH[of j] Cons.prems by simp
  show ?case
  proof (cases i)
    case 0
    with lx ih[of 0] show ?thesis by (simp add: nth_append)
  next
    case (Suc j)
    with lx ih[of j] show ?thesis by (simp add: nth_append)
  qed
qed

lemma outputs_loop:
  "for_range (connectExternalOutputs_body E) shards w = (None, w') \<Longrightarrow>
     trace w' = trace w @ concat (map (\<lambda>s. snd (connectExternalOutputs_item E (option (tr w)) s)) shards) \<and>
     (\<forall>s \<in> set shards. fst (connectExternalOutputs_item E (option (tr w)) s) = None) \<and>
     option (tr w') = option (tr w) \<and>
     InputChannelStatuses (executorStatus (tr w')) = InputChannelStatuses (executorStatus (tr w)) \<and>
     (shards \<noteq> [] \<longrightarrow>
        OutputChannelStatus (executorStatus (tr w')) = Some (ChannelStatus (length (trace w') - 1)))"
proof (induction shards arbitrary: w)
  case Nil
  then show ?case by simp
next
  case (Cons s shards)
  obtain r1 w1 where b: "connectExternalOutputs_body E s w = (r1, w1)"
    by (cases "connectExternalOutputs_body E s w")
  with Cons.prems have r1: "r1 = None" and rest: "for_range (connectExternalOutputs_body E) shards w1 = (None, w')"
    by (auto split: option.splits)
  from b r1 have one:
    "trace w1 = trace w @ snd (connectExternalOutputs_item E (option (tr w)) s)"
    "fst (connectExternalOutputs_item E (option (tr w)) s) = None"
    "option (tr w1) = option (tr w)"
    "InputChannelStatuses (executorStatus (tr w1)) = InputChannelStatuses (executorStatus (tr w))"
    "OutputChannelStatus (executorStatus (tr w1)) = Some (ChannelStatus (length (trace w1) - 1))"
    by (auto simp: connectExternalOutputs_body_def connectExternalOutputs_item_def Let_def emit_def
        ConnectTypedWriteChannelToRaw_def set_OutputChannelStatus_def split: sum.splits)
  show ?case
  proof (cases shards)
    case Nil
    with rest have "w' = w1" by simp
    with one Nil show ?thesis by simp
  next
    case (Cons a list)
    with Cons.IH[OF rest] one show ?thesis by auto
  qed
qed

text \<open>
  C10: when the external-output phase completes on a final stage with more than one
  output shard, it has resolved a local write channel and started an encoding adapter
  for every shard, in order (two events a shard); \<^verbatim>\<open>OutputChannelStatus\<close> is the status
  of the adapter of the last shard, the last event of the trace, and is the status of
  none of the adapters of the earlier shards, which are kept nowhere: the list of input
  statuses is as it was.
\<close>

theorem output_status_overwritten:
  assumes run: "connectExternalOutputs E w = (None, w')"
      and tasks: "Tasks (tr w) \<noteq> []"
      and outs: "Outputs (last (Tasks (tr w))) = shards"
      and many: "1 < length shards"
  shows "length (trace w') = length (trace w) + 2 * length shards \<and>
         (\<forall>i < length shards. \<exists>rawChan.
             GetLocalSendChannel E (ExecutableFileHash (option (tr w)) @ ''-'' @ Name (shards ! i)) = Inr rawChan \<and>
             trace w' ! (length (trace w) + 2 * i) =
               Call_GetLocalSendChannel (ExecutableFileHash (option (tr w)) @ ''-'' @ Name (shards ! i)) \<and>
             trace w' ! (length (trace w) + 2 * i + 1) =
               Spawn (EncodeAdapter (WriteChan (shards ! i)) rawChan)) \<and>
         OutputChannelStatus (executorStatus (tr w')) =
           Some (ChannelStatus (length (trace w) + 2 * (length shards - 1) + 1)) \<and>
         (\<forall>i < length shards - 1.
             OutputChannelStatus (executorStatus (tr w')) \<noteq> Some (ChannelStatus (length (trace w) + 2 * i + 1))) \<and>
         InputChannelStatuses (executorStatus (tr w')) = InputChannelStatuses (executorStatus (tr w))"
proof -
  let ?opt = "option (tr w)"
  let ?h = "\<lambda>s. snd (connectExternalOutputs_item E ?opt s)"
  obtain t ts where ts: "Tasks (tr w) = t # ts" using tasks by (cases "Tasks (tr w)") auto
  have "index (Tasks (tr w)) (int (length (Tasks (tr w))) - 1) = Inr (last (Tasks (tr w)))"
    unfolding ts by (rule index_last)
  with run outs have loop: "for_range (connectExternalOutputs_body E) shards w = (None, w')"
    by (simp add: connectExternalOutputs_def)
  from outputs_loop[OF loop] many have
    tr: "trace w' = trace w @ concat (map ?h shards)" and
    ok: "\<And>s. s \<in> set shards \<Longrightarrow> fst (connectExternalOutputs_item E ?opt s) = None" and
    ins: "InputChannelStatuses (executorStatus (tr w')) = InputChannelStatuses (executorStatus (tr w))" and
    out: "OutputChannelStatus (executorStatus (tr w')) = Some (ChannelStatus (length (trace w') - 1))"
    by auto
  have two: "length (?h s) = 2" if "s \<in> set shards" for s
    using item4_None[OF ok[OF that]] by auto
  note cp = concat_pairs[of shards ?h, OF two]
  have len: "length (trace w') = length (trace w) + 2 * length shards"
    using tr cp[of 0] by simp
  have each: "\<exists>rawChan.
       GetLocalSendChannel E (ExecutableFileHash ?opt @ ''-'' @ Name (shards ! i)) = Inr rawChan \<and>
       trace w' ! (length (trace w) + 2 * i) =
         Call_GetLocalSendChannel (ExecutableFileHash ?opt @ ''-'' @ Name (shards ! i)) \<and>
       trace w' ! (length (trace w) + 2 * i + 1) = Spawn (EncodeAdapter (WriteChan (shards ! i)) rawChan)"
    if i: "i < length shards" for i
  proof -
    from i have mem: "shards ! i \<in> set shards" by simp
    from item4_None[OF ok[OF mem]] obtain rawChan where
      rc: "GetLocalSendChannel E (shardChanName ?opt (shards ! i)) = Inr rawChan"
          "?h (shards ! i) = [Call_GetLocalSendChannel (shardChanName ?opt (shards ! i)),
                               Spawn (EncodeAdapter (WriteChan (shards ! i)) rawChan)]"
      by auto
    from cp[of i] i have "concat (map ?h shards) ! (2 * i) = ?h (shards ! i) ! 0"
        "concat (map ?h shards) ! (2 * i + 1) = ?h (shards ! i) ! 1" by auto
    with rc tr show ?thesis
      by (intro exI[of _ rawChan]) (simp add: nth_append shardChanName_def)
  qed
  have pos: "length (trace w') - 1 = length (trace w) + 2 * (length shards - 1) + 1"
    using len many by simp
  have "OutputChannelStatus (executorStatus (tr w')) \<noteq> Some (ChannelStatus (length (trace w) + 2 * i + 1))"
    if "i < length shards - 1" for i
    using that out pos by simp
  with len each out pos ins show ?thesis by simp
qed

theorem output_status_overwritten_witness:
  "trace (snd (connectExternalOutputs ex_env ex_fan_out)) =
     [Call_GetLocalSendChannel ''job-a'', Spawn (EncodeAdapter (Chan 1) 3),
      Call_GetLocalSendChannel ''job-b'', Spawn (EncodeAdapter (Chan 2) 3)] \<and>
   OutputChannelStatus (executorStatus (tr (snd (connectExternalOutputs ex_env ex_fan_out)))) =
     Some (ChannelStatus 3) \<and>
   OutputChannelStatus (executorStatus (tr (snd (connectExternalOutputs ex_env ex_fan_out)))) \<noteq>
     Some (ChannelStatus 1)"
proof -
  let ?res = "connectExternalOutputs ex_env ex_fan_out"
  have ev: "?res = (None, snd ?res)"
    by (simp add: connectExternalOutputs_def connectExternalOutputs_body_def ex_defs
        index_def Let_def emit_def ConnectTypedWriteChannelToRaw_def set_OutputChannelStatus_def
        shardChanName_def)
  have t: "trace (snd ?res) =
     [Call_GetLocalSendChannel ''job-a'', Spawn (EncodeAdapter (Chan 1) 3),
      Call_GetLocalSendChannel ''job-b'', Spawn (EncodeAdapter (Chan 2) 3)]"
    by (simp add: connectExternalOutputs_def connectExternalOutputs_body_def ex_defs
        index_def Let_def emit_def ConnectTypedWriteChannelToRaw_def set_OutputChannelStatus_def
        shardChanName_def)
  have 1: "Tasks (tr ex_fan_out) \<noteq> []" by (simp add: ex_fan_out_def)
  have 2: "Outputs (last (Tasks (tr ex_fan_out))) = [ex_shard ''a'' 1, ex_shard ''b'' 2]"
    by (simp add: ex_fan_out_def)
  have 3: "1 < length [ex_shard ''a'' 1, ex_shard ''b'' 2]" by simp
  have 4: "trace ex_fan_out = []" by (simp add: ex_fan_out_def)
  from output_status_overwritten[OF ev 1 2 3] t 4 show ?thesis by simp
qed

subsection \<open>The units the wiring starts\<close>

lemma run_items_count:
  assumes "fst (run_items f xs) = None"
      and "\<And>x. x \<in> set xs \<Longrightarrow> fst (f x) = None \<Longrightarrow> length (filter P (spawned (snd (f x)))) = c x"
  shows "length (filter P (spawned (snd (run_items f xs)))) = sum_list (map c xs)"
  using assms
proof (induction xs)
  case Nil
  then show ?case by simp
next
  case (Cons x xs)
  from Cons.prems(1) have x: "fst (f x) = None" and r: "fst (run_items f xs) = None"
    by (auto simp: run_items_fst_snd simp del: run_items.simps(2) split: if_splits)
  from Cons.IH[OF r] Cons.prems(2) have "length (filter P (spawned (snd (run_items f xs)))) = sum_list (map c xs)"
    by simp
  with x Cons.prems(2)[of x] show ?case
    by (simp add: run_items_fst_snd spawned_append del: run_items.simps(2))
qed

lemma sum_list_const1: "sum_list (map (\<lambda>x. Suc 0) xs) = length xs"
  by (induction xs) simp_all

lemma sum_list_const0: "sum_list (map (\<lambda>x. 0::nat) xs) = 0"
  by (induction xs) simp_all

lemma sum_list_all_but_last:
  "sum_list (map (\<lambda>x. if int (fst x) = int (Suc n) - 1 then 0 else Suc 0) (enumerate 0 (t # ts))) = length ts"
  if "length ts = n" for ts :: "'a list"
proof -
  let ?c = "\<lambda>i. if int i = int (Suc n) - 1 then 0 else Suc 0"
  have "map (\<lambda>x. ?c (fst x)) (enumerate 0 (t # ts)) = map ?c [0..<length (t # ts)]"
    by (rule map_fst_enumerate)
  also have "[0..<length (t # ts)] = [0..<n] @ [n]" using that by simp
  also have "sum_list (map ?c ([0..<n] @ [n])) = sum_list (map ?c [0..<n])" by simp
  also have "map ?c [0..<n] = map (\<lambda>i. Suc 0) [0..<n]" by (rule map_cong) auto
  also have "sum_list \<dots> = n" by (simp add: sum_list_const1)
  finally show ?thesis using that by simp
qed

lemma item1_counts:
  assumes "fst (connectExternalInputChannels_item E opt bsr ds ic) = None"
  shows "length (filter is_DecodeAdapter (spawned (snd (connectExternalInputChannels_item E opt bsr ds ic)))) = Suc 0"
        "length (filter is_Forwarder (spawned (snd (connectExternalInputChannels_item E opt bsr ds ic)))) = 0"
        "length (filter is_EncodeAdapter (spawned (snd (connectExternalInputChannels_item E opt bsr ds ic)))) = 0"
        "length (filter is_Stage (spawned (snd (connectExternalInputChannels_item E opt bsr ds ic)))) = 0"
  using assms by (auto simp: connectExternalInputChannels_item_def Let_def split: sum.splits)

lemma item2_counts:
  assumes "fst (connectExternalInputs_item E opt bsr n2l ft ishard) = None"
  shows "length (filter is_DecodeAdapter (spawned (snd (connectExternalInputs_item E opt bsr n2l ft ishard)))) = Suc 0"
        "length (filter is_Forwarder (spawned (snd (connectExternalInputs_item E opt bsr n2l ft ishard)))) = 0"
        "length (filter is_EncodeAdapter (spawned (snd (connectExternalInputs_item E opt bsr n2l ft ishard)))) = 0"
        "length (filter is_Stage (spawned (snd (connectExternalInputs_item E opt bsr n2l ft ishard)))) = 0"
  using assms by (auto simp: connectExternalInputs_item_def Let_def split: sum.splits)

lemma item3_counts:
  assumes "fst (connectInternalInputsAndOutputs_item ts it) = None"
  shows "length (filter is_Forwarder (spawned (snd (connectInternalInputsAndOutputs_item ts it)))) =
           (if int (fst it) = int (length ts) - 1 then 0 else Suc 0)"
        "length (filter is_DecodeAdapter (spawned (snd (connectInternalInputsAndOutputs_item ts it)))) = 0"
        "length (filter is_EncodeAdapter (spawned (snd (connectInternalInputsAndOutputs_item ts it)))) = 0"
        "length (filter is_Stage (spawned (snd (connectInternalInputsAndOutputs_item ts it)))) = 0"
  using assms by (auto simp: connectInternalInputsAndOutputs_item_def Let_def split: sum.splits if_splits)

lemma item4_counts:
  assumes "fst (connectExternalOutputs_item E opt shard) = None"
  shows "length (filter is_EncodeAdapter (spawned (snd (connectExternalOutputs_item E opt shard)))) = Suc 0"
        "length (filter is_Forwarder (spawned (snd (connectExternalOutputs_item E opt shard)))) = 0"
        "length (filter is_DecodeAdapter (spawned (snd (connectExternalOutputs_item E opt shard)))) = 0"
        "length (filter is_Stage (spawned (snd (connectExternalOutputs_item E opt shard)))) = 0"
  using assms by (auto simp: connectExternalOutputs_item_def Let_def split: sum.splits)


lemma events1_counts:
  assumes "fst (connectExternalInputChannels_events E opt bsr (ft # rest)) = None"
  shows "length (filter is_DecodeAdapter (spawned (snd (connectExternalInputChannels_events E opt bsr (ft # rest))))) =
           (case Inputs ft of Some shards \<Rightarrow> 0
            | None \<Rightarrow> length (ExternalInputChans (Parent (hd (Outputs ft)))))"
    and "length (filter is_Forwarder (spawned (snd (connectExternalInputChannels_events E opt bsr (ft # rest))))) = 0"
    and "length (filter is_EncodeAdapter (spawned (snd (connectExternalInputChannels_events E opt bsr (ft # rest))))) = 0"
    and "length (filter is_Stage (spawned (snd (connectExternalInputChannels_events E opt bsr (ft # rest))))) = 0"
    and "Inputs ft = None \<longrightarrow> Outputs ft \<noteq> []"
proof -
  let ?ev = "connectExternalInputChannels_events E opt bsr (ft # rest)"
  have all: "length (filter is_DecodeAdapter (spawned (snd ?ev))) =
           (case Inputs ft of Some shards \<Rightarrow> 0
            | None \<Rightarrow> length (ExternalInputChans (Parent (hd (Outputs ft))))) \<and>
        length (filter is_Forwarder (spawned (snd ?ev))) = 0 \<and>
        length (filter is_EncodeAdapter (spawned (snd ?ev))) = 0 \<and>
        length (filter is_Stage (spawned (snd ?ev))) = 0 \<and>
        (Inputs ft = None \<longrightarrow> Outputs ft \<noteq> [])"
  proof (cases "Inputs ft")
    case (Some a)
    then show ?thesis by (simp add: connectExternalInputChannels_events_def index_0_Cons)
  next
    case None
    show ?thesis
    proof (cases "Outputs ft")
      case Nil
      with None assms show ?thesis
        by (simp add: connectExternalInputChannels_events_def index_0_Cons index_def)
    next
      case (Cons shard ss)
      let ?xs = "enumerate 0 (ExternalInputChans (Parent shard))"
      let ?f = "connectExternalInputChannels_item E opt bsr (Parent shard)"
      have ev: "?ev = run_items ?f ?xs"
        using None Cons by (simp add: connectExternalInputChannels_events_def index_0_Cons)
      have ok: "fst (run_items ?f ?xs) = None" using assms ev by simp
      have "length (filter is_DecodeAdapter (spawned (snd (run_items ?f ?xs)))) = sum_list (map (\<lambda>x. Suc 0) ?xs)"
        by (rule run_items_count[OF ok]) (rule item1_counts)
      moreover have "length (filter is_Forwarder (spawned (snd (run_items ?f ?xs)))) = sum_list (map (\<lambda>x. 0) ?xs)"
        by (rule run_items_count[OF ok]) (rule item1_counts)
      moreover have "length (filter is_EncodeAdapter (spawned (snd (run_items ?f ?xs)))) = sum_list (map (\<lambda>x. 0) ?xs)"
        by (rule run_items_count[OF ok]) (rule item1_counts)
      moreover have "length (filter is_Stage (spawned (snd (run_items ?f ?xs)))) = sum_list (map (\<lambda>x. 0) ?xs)"
        by (rule run_items_count[OF ok]) (rule item1_counts)
      ultimately show ?thesis
        using None Cons unfolding ev by (simp add: sum_list_const1 sum_list_const0)
    qed
  qed
  from all show "length (filter is_DecodeAdapter (spawned (snd ?ev))) =
           (case Inputs ft of Some shards \<Rightarrow> 0
            | None \<Rightarrow> length (ExternalInputChans (Parent (hd (Outputs ft)))))" by simp
  from all show "length (filter is_Forwarder (spawned (snd ?ev))) = 0" by simp
  from all show "length (filter is_EncodeAdapter (spawned (snd ?ev))) = 0" by simp
  from all show "length (filter is_Stage (spawned (snd ?ev))) = 0" by simp
  from all show "Inputs ft = None \<longrightarrow> Outputs ft \<noteq> []" by simp
qed

lemma events2_counts:
  assumes "fst (connectExternalInputs_events E opt bsr n2l (ft # rest)) = None"
  shows "length (filter is_DecodeAdapter (spawned (snd (connectExternalInputs_events E opt bsr n2l (ft # rest))))) =
           length (elems (Inputs ft))"
    and "length (filter is_Forwarder (spawned (snd (connectExternalInputs_events E opt bsr n2l (ft # rest))))) = 0"
    and "length (filter is_EncodeAdapter (spawned (snd (connectExternalInputs_events E opt bsr n2l (ft # rest))))) = 0"
    and "length (filter is_Stage (spawned (snd (connectExternalInputs_events E opt bsr n2l (ft # rest))))) = 0"
proof -
  let ?xs = "enumerate 0 (elems (Inputs ft))"
  let ?f = "connectExternalInputs_item E opt bsr n2l ft"
  have ev: "connectExternalInputs_events E opt bsr n2l (ft # rest) = run_items ?f ?xs"
    by (simp add: connectExternalInputs_events_def index_0_Cons)
  have ok: "fst (run_items ?f ?xs) = None" using assms ev by simp
  have "length (filter is_DecodeAdapter (spawned (snd (run_items ?f ?xs)))) = sum_list (map (\<lambda>x. Suc 0) ?xs)"
    by (rule run_items_count[OF ok]) (rule item2_counts)
  then show "length (filter is_DecodeAdapter (spawned (snd (connectExternalInputs_events E opt bsr n2l (ft # rest))))) =
           length (elems (Inputs ft))"
    unfolding ev by (simp add: sum_list_const1)
  have "length (filter is_Forwarder (spawned (snd (run_items ?f ?xs)))) = sum_list (map (\<lambda>x. 0) ?xs)"
    by (rule run_items_count[OF ok]) (rule item2_counts)
  then show "length (filter is_Forwarder (spawned (snd (connectExternalInputs_events E opt bsr n2l (ft # rest))))) = 0"
    unfolding ev by (simp add: sum_list_const0)
  have "length (filter is_EncodeAdapter (spawned (snd (run_items ?f ?xs)))) = sum_list (map (\<lambda>x. 0) ?xs)"
    by (rule run_items_count[OF ok]) (rule item2_counts)
  then show "length (filter is_EncodeAdapter (spawned (snd (connectExternalInputs_events E opt bsr n2l (ft # rest))))) = 0"
    unfolding ev by (simp add: sum_list_const0)
  have "length (filter is_Stage (spawned (snd (run_items ?f ?xs)))) = sum_list (map (\<lambda>x. 0) ?xs)"
    by (rule run_items_count[OF ok]) (rule item2_counts)
  then show "length (filter is_Stage (spawned (snd (connectExternalInputs_events E opt bsr n2l (ft # rest))))) = 0"
    unfolding ev by (simp add: sum_list_const0)
qed

lemma events3_counts:
  assumes "fst (connectInternalInputsAndOutputs_events (ft # rest)) = None"
  shows "length (filter is_Forwarder (spawned (snd (connectInternalInputsAndOutputs_events (ft # rest))))) = length rest"
    and "length (filter is_DecodeAdapter (spawned (snd (connectInternalInputsAndOutputs_events (ft # rest))))) = 0"
    and "length (filter is_EncodeAdapter (spawned (snd (connectInternalInputsAndOutputs_events (ft # rest))))) = 0"
    and "length (filter is_Stage (spawned (snd (connectInternalInputsAndOutputs_events (ft # rest))))) = 0"
proof -
  let ?xs = "enumerate 0 (ft # rest)"
  let ?f = "connectInternalInputsAndOutputs_item (ft # rest)"
  have ev: "connectInternalInputsAndOutputs_events (ft # rest) = run_items ?f ?xs"
    by (simp add: connectInternalInputsAndOutputs_events_def)
  have ok: "fst (run_items ?f ?xs) = None" using assms ev by simp
  have "length (filter is_Forwarder (spawned (snd (run_items ?f ?xs)))) =
      sum_list (map (\<lambda>x. if int (fst x) = int (length (ft # rest)) - 1 then 0 else Suc 0) ?xs)"
    by (rule run_items_count[OF ok]) (rule item3_counts)
  also have "\<dots> = length rest"
    using sum_list_all_but_last[of rest "length rest" ft] by simp
  finally show "length (filter is_Forwarder (spawned (snd (connectInternalInputsAndOutputs_events (ft # rest))))) = length rest"
    unfolding ev .
  have "length (filter is_DecodeAdapter (spawned (snd (run_items ?f ?xs)))) = sum_list (map (\<lambda>x. 0) ?xs)"
    by (rule run_items_count[OF ok]) (rule item3_counts)
  then show "length (filter is_DecodeAdapter (spawned (snd (connectInternalInputsAndOutputs_events (ft # rest))))) = 0"
    unfolding ev by (simp add: sum_list_const0)
  have "length (filter is_EncodeAdapter (spawned (snd (run_items ?f ?xs)))) = sum_list (map (\<lambda>x. 0) ?xs)"
    by (rule run_items_count[OF ok]) (rule item3_counts)
  then show "length (filter is_EncodeAdapter (spawned (snd (connectInternalInputsAndOutputs_events (ft # rest))))) = 0"
    unfolding ev by (simp add: sum_list_const0)
  have "length (filter is_Stage (spawned (snd (run_items ?f ?xs)))) = sum_list (map (\<lambda>x. 0) ?xs)"
    by (rule run_items_count[OF ok]) (rule item3_counts)
  then show "length (filter is_Stage (spawned (snd (connectInternalInputsAndOutputs_events (ft # rest))))) = 0"
    unfolding ev by (simp add: sum_list_const0)
qed

lemma events4_counts:
  assumes "fst (connectExternalOutputs_events E opt (ft # rest)) = None"
  shows "length (filter is_EncodeAdapter (spawned (snd (connectExternalOutputs_events E opt (ft # rest))))) =
           length (Outputs (last (ft # rest)))"
    and "length (filter is_Forwarder (spawned (snd (connectExternalOutputs_events E opt (ft # rest))))) = 0"
    and "length (filter is_DecodeAdapter (spawned (snd (connectExternalOutputs_events E opt (ft # rest))))) = 0"
    and "length (filter is_Stage (spawned (snd (connectExternalOutputs_events E opt (ft # rest))))) = 0"
proof -
  let ?xs = "Outputs (last (ft # rest))"
  let ?f = "connectExternalOutputs_item E opt"
  have ev: "connectExternalOutputs_events E opt (ft # rest) = run_items ?f ?xs"
    using index_last[of ft rest] by (simp add: connectExternalOutputs_events_def)
  have ok: "fst (run_items ?f ?xs) = None" using assms ev by simp
  have "length (filter is_EncodeAdapter (spawned (snd (run_items ?f ?xs)))) = sum_list (map (\<lambda>x. Suc 0) ?xs)"
    by (rule run_items_count[OF ok]) (rule item4_counts)
  then show "length (filter is_EncodeAdapter (spawned (snd (connectExternalOutputs_events E opt (ft # rest))))) =
           length (Outputs (last (ft # rest)))"
    unfolding ev by (simp add: sum_list_const1)
  have "length (filter is_Forwarder (spawned (snd (run_items ?f ?xs)))) = sum_list (map (\<lambda>x. 0) ?xs)"
    by (rule run_items_count[OF ok]) (rule item4_counts)
  then show "length (filter is_Forwarder (spawned (snd (connectExternalOutputs_events E opt (ft # rest))))) = 0"
    unfolding ev by (simp add: sum_list_const0)
  have "length (filter is_DecodeAdapter (spawned (snd (run_items ?f ?xs)))) = sum_list (map (\<lambda>x. 0) ?xs)"
    by (rule run_items_count[OF ok]) (rule item4_counts)
  then show "length (filter is_DecodeAdapter (spawned (snd (connectExternalOutputs_events E opt (ft # rest))))) = 0"
    unfolding ev by (simp add: sum_list_const0)
  have "length (filter is_Stage (spawned (snd (run_items ?f ?xs)))) = sum_list (map (\<lambda>x. 0) ?xs)"
    by (rule run_items_count[OF ok]) (rule item4_counts)
  then show "length (filter is_Stage (spawned (snd (connectExternalOutputs_events E opt (ft # rest))))) = 0"
    unfolding ev by (simp add: sum_list_const0)
qed

lemma wiring_counts:
  assumes "fst (connectInputsAndOutputs_events E opt bsr (ft # rest)) = None"
  shows "length (filter is_Forwarder (spawned (snd (connectInputsAndOutputs_events E opt bsr (ft # rest))))) = length rest \<and>
         length (filter is_DecodeAdapter (spawned (snd (connectInputsAndOutputs_events E opt bsr (ft # rest))))) =
           (case Inputs ft of Some shards \<Rightarrow> length shards
            | None \<Rightarrow> length (ExternalInputChans (Parent (hd (Outputs ft))))) \<and>
         length (filter is_EncodeAdapter (spawned (snd (connectInputsAndOutputs_events E opt bsr (ft # rest))))) =
           length (Outputs (last (ft # rest))) \<and>
         length (filter is_Stage (spawned (snd (connectInputsAndOutputs_events E opt bsr (ft # rest))))) = 0 \<and>
         (Inputs ft = None \<longrightarrow> Outputs ft \<noteq> [])"
proof (cases "name2Location (option_Inputs opt)")
  case (Inl e)
  with assms show ?thesis by (simp add: connectInputsAndOutputs_events_def)
next
  case (Inr n2l)
  let ?ts = "ft # rest"
  let ?e1 = "connectExternalInputChannels_events E opt bsr ?ts"
  let ?e2 = "connectExternalInputs_events E opt bsr n2l ?ts"
  let ?e3 = "connectInternalInputsAndOutputs_events ?ts"
  let ?e4 = "connectExternalOutputs_events E opt ?ts"
  have ev: "connectInputsAndOutputs_events E opt bsr ?ts = seq_items (seq_items (seq_items ?e1 ?e2) ?e3) ?e4"
    using Inr by (simp add: connectInputsAndOutputs_events_def)
  from assms have ok: "fst ?e1 = None" "fst ?e2 = None" "fst ?e3 = None" "fst ?e4 = None"
    unfolding ev by (auto simp: seq_items_fst_snd split: if_splits)
  have sn: "snd (connectInputsAndOutputs_events E opt bsr ?ts) = ((snd ?e1 @ snd ?e2) @ snd ?e3) @ snd ?e4"
    unfolding ev using ok by (simp add: seq_items_fst_snd)
  show ?thesis
    unfolding sn
    using events1_counts[OF ok(1)] events2_counts[OF ok(2)] events3_counts[OF ok(3)] events4_counts[OF ok(4)]
    by (simp add: spawned_append elems_def split: option.splits)
qed


lemma goroutine_kinds:
  "length us = length (filter is_Forwarder us) + length (filter is_DecodeAdapter us) +
     length (filter is_EncodeAdapter us) + length (filter is_Stage us)"
proof (induction us)
  case Nil
  then show ?case by simp
next
  case (Cons u us)
  then show ?case by (cases u) simp_all
qed

lemma ex_empty_inputs_events:
  "connectInputsAndOutputs_events ex_env (option (tr ex_empty_inputs)) (bufferSize ex_empty_inputs)
      (Tasks (tr ex_empty_inputs)) =
     (None, [Call_GetLocalSendChannel ''job-s1'', Spawn (EncodeAdapter (Chan 1) 3)])"
  by (simp add: ex_defs events_defs upt_rec)

lemma ex_wired_events:
  "connectInputsAndOutputs_events ex_env (option (tr ex_wired)) (bufferSize ex_wired) (Tasks (tr ex_wired)) =
     (None,
      [Call_GetDirectReadChannel ''job-s0'' [] 16,
       Spawn (DecodeAdapter 1 (Chan 10) ''int''),
       Call_SetupReadingChans (ex_shard ''s1'' 1),
       Spawn (Forwarder (ex_shard ''s1'' 1) (ex_shard ''s1'' 1) 0),
       Call_SetupReadingChans (ex_shard ''s2'' 2),
       Spawn (Forwarder (ex_shard ''s2'' 2) (ex_shard ''s2'' 2) 1),
       Call_GetLocalSendChannel ''job-s3'',
       Spawn (EncodeAdapter (Chan 3) 3)])"
  by (simp add: ex_defs events_defs upt_rec)

text \<open>
  C4, as the claim states it, fails in two ways. A first stage whose input slice is
  empty but not nil has no input slots, yet no decoding adapter is created for the two
  external inputs its output dataset declares: the guard of the external-input-channel
  phase tests for nil. And when a resolution fails the wiring panics before it has
  created every adapter: here the two forwarders and the decoding adapter exist, but no
  encoding adapter for the one output shard of the last stage.
\<close>

theorem wiring_unit_counts_counterexample:
  "elems (Inputs (hd (Tasks (tr ex_empty_inputs)))) = [] \<and>
   length (ExternalInputChans (Parent (hd (Outputs (hd (Tasks (tr ex_empty_inputs))))))) = 2 \<and>
   fst (connectInputsAndOutputs ex_env ex_empty_inputs) = None \<and>
   length (filter is_DecodeAdapter (spawned (trace (snd (connectInputsAndOutputs ex_env ex_empty_inputs))))) = 0 \<and>
   length (Outputs (last (Tasks (tr ex_wired)))) = 1 \<and>
   fst (connectInputsAndOutputs ex_env_failing ex_wired) = Some (LogPanic ''no agent'') \<and>
   length (filter is_EncodeAdapter (spawned (trace (snd (connectInputsAndOutputs ex_env_failing ex_wired))))) = 0"
proof -
  let ?a = "connectInputsAndOutputs ex_env ex_empty_inputs"
  let ?b = "connectInputsAndOutputs ex_env_failing ex_wired"
  have a: "?a = (fst ?a, snd ?a)" and b: "?b = (fst ?b, snd ?b)" by simp_all
  have ta: "trace ex_empty_inputs = []" and tb: "trace ex_wired = []"
    by (simp_all add: ex_empty_inputs_def ex_wired_def)
  from wiring_abs[OF a] ex_empty_inputs_events ta
  have 1: "fst ?a = None" "trace (snd ?a) = [Call_GetLocalSendChannel ''job-s1'', Spawn (EncodeAdapter (Chan 1) 3)]"
    by simp_all
  from wiring_abs[OF b] ex_failing_events tb
  have 2: "fst ?b = Some (LogPanic ''no agent'')"
    "trace (snd ?b) =
      [Call_GetDirectReadChannel ''job-s0'' [] 16,
       Spawn (DecodeAdapter 1 (Chan 10) ''int''),
       Call_SetupReadingChans (ex_shard ''s1'' 1),
       Spawn (Forwarder (ex_shard ''s1'' 1) (ex_shard ''s1'' 1) 0),
       Call_SetupReadingChans (ex_shard ''s2'' 2),
       Spawn (Forwarder (ex_shard ''s2'' 2) (ex_shard ''s2'' 2) 1),
       Call_GetLocalSendChannel ''job-s3'']"
    by simp_all
  have 3: "elems (Inputs (hd (Tasks (tr ex_empty_inputs)))) = []"
    "length (ExternalInputChans (Parent (hd (Outputs (hd (Tasks (tr ex_empty_inputs))))))) = 2"
    "length (Outputs (last (Tasks (tr ex_wired)))) = 1"
    by (simp_all add: ex_empty_inputs_def ex_defs elems_def)
  from 1 2 3 show ?thesis by simp
qed

text \<open>
  C4, amended: for every task group of length \<open>N \<ge> 1\<close> on which the wiring completes,
  the units it has started are exactly \<open>N - 1\<close> forwarders, one encoding adapter for
  each output shard of the last stage, and one decoding adapter for each input slot of
  the first stage or, when the input slice of the first stage is nil, for each external
  input declared by the dataset of its first output shard.
\<close>

theorem wiring_unit_counts:
  assumes tasks: "Tasks (tr w) = firstTask # rest"
      and run: "connectInputsAndOutputs E w = (None, w')"
  shows "\<exists>new. trace w' = trace w @ new \<and>
     length (filter is_Forwarder (spawned new)) = length (firstTask # rest) - 1 \<and>
     length (filter is_DecodeAdapter (spawned new)) =
       (case Inputs firstTask of
          Some shards \<Rightarrow> length shards
        | None \<Rightarrow> length (ExternalInputChans (Parent (hd (Outputs firstTask))))) \<and>
     length (filter is_EncodeAdapter (spawned new)) = length (Outputs (last (firstTask # rest))) \<and>
     length (spawned new) =
       length (filter is_Forwarder (spawned new)) + length (filter is_DecodeAdapter (spawned new)) +
       length (filter is_EncodeAdapter (spawned new)) \<and>
     (Inputs firstTask = None \<longrightarrow> Outputs firstTask \<noteq> [])"
proof -
  let ?res = "connectInputsAndOutputs_events E (option (tr w)) (bufferSize w) (firstTask # rest)"
  from wiring_abs[OF run] tasks have r: "fst ?res = None" and t: "trace w' = trace w @ snd ?res"
    by auto
  from wiring_counts[OF r] goroutine_kinds[of "spawned (snd ?res)"] t
  show ?thesis by (intro exI[of _ "snd ?res"]) simp
qed

theorem wiring_unit_counts_witness:
  "length (filter is_Forwarder (spawned (trace (snd (connectInputsAndOutputs ex_env ex_wired))))) = 2 \<and>
   length (filter is_DecodeAdapter (spawned (trace (snd (connectInputsAndOutputs ex_env ex_wired))))) = 1 \<and>
   length (filter is_EncodeAdapter (spawned (trace (snd (connectInputsAndOutputs ex_env ex_wired))))) = 1 \<and>
   length (spawned (trace (snd (connectInputsAndOutputs ex_env ex_wired)))) = 4"
proof -
  let ?res = "connectInputsAndOutputs ex_env ex_wired"
  have p: "?res = (fst ?res, snd ?res)" by simp
  have t0: "trace ex_wired = []" by (simp add: ex_wired_def)
  from wiring_abs[OF p] ex_wired_events have ok: "fst ?res = None" by simp
  with p have run: "?res = (None, snd ?res)" by simp
  have tasks: "Tasks (tr ex_wired) = hd ex_tasks # tl ex_tasks"
    by (simp add: ex_wired_def ex_tasks_def NewTaskRunner_def)
  from wiring_unit_counts[OF tasks run] t0 show ?thesis
    by (clarsimp simp add: ex_tasks_def ex_shard_def)
qed

subsection \<open>Which phase wires the first stage\<close>

text \<open>
  C6, as the claim states it, fails: a first stage whose input slice is empty but not
  nil has no declared input slots, and the external-input-channel phase returns at its
  guard without connecting the external inputs that the phase as worded would connect.
\<close>

theorem input_phases_counterexample:
  "elems (Inputs (hd (Tasks (tr ex_empty_inputs)))) = [] \<and>
   connectExternalInputChannels ex_env ex_empty_inputs = (None, ex_empty_inputs) \<and>
   connectExternalInputChannels_as_claimed ex_env ex_empty_inputs \<noteq> (None, ex_empty_inputs)"
proof -
  have 1: "elems (Inputs (hd (Tasks (tr ex_empty_inputs)))) = []"
    by (simp add: ex_empty_inputs_def elems_def)
  have 2: "connectExternalInputChannels ex_env ex_empty_inputs = (None, ex_empty_inputs)"
    by (simp add: connectExternalInputChannels_def ex_empty_inputs_def index_def)
  have "trace (snd (connectExternalInputChannels_as_claimed ex_env ex_empty_inputs)) \<noteq> []"
    by (simp add: connectExternalInputChannels_as_claimed_def connectExternalInputChannels_body_def
        ex_defs index_def elems_def Let_def enumerate_eq_zip upt_rec bufferSize_def
        emit_def ConnectRawReadChannelToTyped_def append_InputChannelStatus_def append_InputChan_def)
  moreover have "trace (snd (None :: error option, ex_empty_inputs)) = []"
    by (simp add: ex_empty_inputs_def)
  ultimately have "connectExternalInputChannels_as_claimed ex_env ex_empty_inputs \<noteq> (None, ex_empty_inputs)"
    by metis
  with 1 2 show ?thesis by simp
qed

text \<open>
  C6, amended: the external-input-channel phase (phase 1) wires the first stage exactly
  when the input slice of the first stage is nil. When it is not nil, phase 1 returns
  without any effect; when it is nil, phase 1 resolves a local read channel and starts a
  decoding adapter for each declared external input, and the external-data-input phase
  (phase 2) then returns without any effect. A first stage with declared input slots is
  wired by phase 2 only, which resolves a remote read channel and starts a decoding
  adapter for each slot. A first stage whose input slice is empty but not nil is wired
  by neither phase.
\<close>

theorem input_phases:
  assumes tasks: "Tasks (tr w) = firstTask # rest"
      and p1: "connectExternalInputChannels E w = (r1, w1)"
      and p2: "connectExternalInputs E n2l w1 = (r2, w2)"
  shows "(Inputs firstTask \<noteq> None \<longrightarrow> r1 = None \<and> w1 = w) \<and>
         (Inputs firstTask = None \<longrightarrow> r2 = None \<and> w2 = w1) \<and>
         (elems (Inputs firstTask) = [] \<longrightarrow> r2 = None \<and> w2 = w1) \<and>
         (Inputs firstTask = None \<and> r1 = None \<longrightarrow>
            Outputs firstTask \<noteq> [] \<and>
            local_read_names (drop (length (trace w)) (trace w1)) =
              map (inputChanName (option (tr w)) (Parent (hd (Outputs firstTask))))
                [0..<length (ExternalInputChans (Parent (hd (Outputs firstTask))))] \<and>
            length (filter is_DecodeAdapter (spawned (drop (length (trace w)) (trace w1)))) =
              length (ExternalInputChans (Parent (hd (Outputs firstTask))))) \<and>
         (Inputs firstTask \<noteq> None \<and> r2 = None \<longrightarrow>
            direct_read_names (drop (length (trace w1)) (trace w2)) =
              map (shardChanName (option (tr w))) (elems (Inputs firstTask)) \<and>
            length (filter is_DecodeAdapter (spawned (drop (length (trace w1)) (trace w2)))) =
              length (elems (Inputs firstTask)))"
proof -
  let ?opt = "option (tr w)" and ?bsr = "bufferSize w" and ?ts = "firstTask # rest"
  let ?e1 = "connectExternalInputChannels_events E ?opt ?bsr ?ts"
  have f0: "frame ?opt ?bsr (Tasks (tr w)) w" by (rule frame_refl)
  from phase1_abs[OF f0 p1] tasks
  have a1: "r1 = fst ?e1" "trace w1 = trace w @ snd ?e1" "frame ?opt ?bsr ?ts w1" by auto
  have A: "r1 = None \<and> w1 = w" if "Inputs firstTask \<noteq> None"
    using phase1_unchanged[of w firstTask E] that tasks p1 by (simp add: index_0_Cons)
  have B': "r2 = None \<and> w2 = w1" if nil: "elems (Inputs firstTask) = []"
  proof -
    from a1(3) tasks have "map Inputs (Tasks (tr w1)) = map Inputs ?ts" by (simp add: frame_def)
    then obtain ft1 rest1 where t1: "Tasks (tr w1) = ft1 # rest1" and "Inputs ft1 = Inputs firstTask"
      by (cases "Tasks (tr w1)") auto
    with nil p2 show ?thesis
      by (simp add: connectExternalInputs_def index_0_Cons)
  qed
  have B: "r2 = None \<and> w2 = w1" if nil: "Inputs firstTask = None"
    using B' nil by (simp add: elems_def)
  have C: "Outputs firstTask \<noteq> [] \<and>
            local_read_names (drop (length (trace w)) (trace w1)) =
              map (inputChanName ?opt (Parent (hd (Outputs firstTask))))
                [0..<length (ExternalInputChans (Parent (hd (Outputs firstTask))))] \<and>
            length (filter is_DecodeAdapter (spawned (drop (length (trace w)) (trace w1)))) =
              length (ExternalInputChans (Parent (hd (Outputs firstTask))))"
    if nil: "Inputs firstTask = None" and ok: "r1 = None"
  proof -
    from ok a1(1) have ok1: "fst ?e1 = None" by simp
    from events1_counts(1,5)[OF ok1] nil
    have ne: "Outputs firstTask \<noteq> []"
      and cnt: "length (filter is_DecodeAdapter (spawned (snd ?e1))) =
         length (ExternalInputChans (Parent (hd (Outputs firstTask))))" by simp_all
    from events1_names(3)[of E ?opt ?bsr firstTask rest] ok1
    have "local_read_names (snd ?e1) = names1 ?opt firstTask" by auto
    also have "\<dots> = map (inputChanName ?opt (Parent (hd (Outputs firstTask))))
                [0..<length (ExternalInputChans (Parent (hd (Outputs firstTask))))]"
      using nil ne by (cases "Outputs firstTask") (simp_all add: names1_def)
    finally show ?thesis using ne cnt a1(2) by simp
  qed
  have D: "direct_read_names (drop (length (trace w1)) (trace w2)) =
              map (shardChanName ?opt) (elems (Inputs firstTask)) \<and>
            length (filter is_DecodeAdapter (spawned (drop (length (trace w1)) (trace w2)))) =
              length (elems (Inputs firstTask))"
    if some: "Inputs firstTask \<noteq> None" and ok: "r2 = None"
  proof -
    let ?e2 = "connectExternalInputs_events E ?opt ?bsr n2l ?ts"
    from A[OF some] have w1: "w1 = w" by simp
    from phase2_abs[OF f0] p2 w1 tasks
    have a2: "r2 = fst ?e2" "trace w2 = trace w @ snd ?e2" by auto
    from ok a2(1) have ok2: "fst ?e2 = None" by simp
    from events2_names(3)[of E ?opt ?bsr n2l firstTask rest] ok2
    have "direct_read_names (snd ?e2) = map (shardChanName ?opt) (elems (Inputs firstTask))" by auto
    with events2_counts(1)[OF ok2] a2(2) w1 show ?thesis by simp
  qed
  from A B B' C D show ?thesis by blast
qed

theorem input_phases_witness:
  "connectExternalInputs ex_env Map.empty (snd (connectExternalInputChannels ex_env ex_source_wired)) =
     (None, snd (connectExternalInputChannels ex_env ex_source_wired)) \<and>
   fst (connectExternalInputChannels ex_env ex_source_wired) = None \<and>
   local_read_names (trace (snd (connectExternalInputChannels ex_env ex_source_wired))) =
     [''job-ct-3-input-7-p-0'', ''job-ct-3-input-7-p-1''] \<and>
   length (filter is_DecodeAdapter (spawned (trace (snd (connectExternalInputChannels ex_env ex_source_wired))))) = 2"
proof -
  let ?p1 = "connectExternalInputChannels ex_env ex_source_wired"
  let ?p2 = "connectExternalInputs ex_env Map.empty (snd ?p1)"
  let ?ft = "\<lparr>Inputs = None, Outputs = [ex_shard ''s1'' 1], InputChans = []\<rparr>"
  have tasks: "Tasks (tr ex_source_wired) = ?ft # []"
    by (simp add: ex_source_wired_def NewTaskRunner_def)
  have ok: "fst ?p1 = None"
    by (simp add: connectExternalInputChannels_def connectExternalInputChannels_body_def
        ex_defs index_def Let_def enumerate_eq_zip upt_rec bufferSize_def
        emit_def ConnectRawReadChannelToTyped_def append_InputChannelStatus_def append_InputChan_def)
  have p1: "?p1 = (fst ?p1, snd ?p1)" and p2: "?p2 = (fst ?p2, snd ?p2)" by simp_all
  have t0: "trace ex_source_wired = []" by (simp add: ex_source_wired_def)
  from input_phases[OF tasks p1 p2] ok t0 p2 show ?thesis
    by (simp add: ex_defs inputChanName_def upt_rec Sprintf_d_def decimal.simps digit_def)
qed

subsection \<open>Run waits for every unit\<close>

lemma for_range_inv:
  assumes "\<And>x w r w'. P w \<Longrightarrow> body x w = (r, w') \<Longrightarrow> P w'"
  shows "P w \<Longrightarrow> for_range body xs w = (r, w') \<Longrightarrow> P w'"
proof (induction xs arbitrary: w)
  case Nil
  then show ?case by simp
next
  case (Cons x xs)
  obtain r1 w1 where b: "body x w = (r1, w1)" by (cases "body x w")
  from assms[OF Cons.prems(1) b] have p1: "P w1" .
  show ?case
  proof (cases r1)
    case None
    with Cons.prems(2) b have "for_range body xs w1 = (r, w')" by simp
    from Cons.IH[OF p1 this] show ?thesis .
  next
    case (Some e)
    with Cons.prems(2) b have "w' = w1" by simp
    with p1 show ?thesis by simp
  qed
qed

lemma body_times:
  "connectExternalInputChannels_body E ds ic w = (r, w') \<Longrightarrow> times w = T \<Longrightarrow> times w' = T"
  "connectExternalInputs_body E n2l ft ishard w = (r, w') \<Longrightarrow> times w = T \<Longrightarrow> times w' = T"
  "connectInternalInputsAndOutputs_body it w = (r, w') \<Longrightarrow> times w = T \<Longrightarrow> times w' = T"
  "connectExternalOutputs_body E shard w = (r, w') \<Longrightarrow> times w = T \<Longrightarrow> times w' = T"
  "launch task w = (r, w') \<Longrightarrow> times w = T \<Longrightarrow> times w' = T"
  by (auto simp: times_def connectExternalInputChannels_body_def connectExternalInputs_body_def
      connectInternalInputsAndOutputs_body_def connectExternalOutputs_body_def launch_def
      Let_def emit_def ConnectRawReadChannelToTyped_def ConnectTypedWriteChannelToRaw_def
      append_InputChannelStatus_def append_InputChan_def set_OutputChannelStatus_def
      split: sum.splits if_splits)

lemma phase_times:
  "connectExternalInputChannels E w = (r, w') \<Longrightarrow> times w' = times w"
  "connectExternalInputs E n2l w = (r, w') \<Longrightarrow> times w' = times w"
  "connectInternalInputsAndOutputs w = (r, w') \<Longrightarrow> times w' = times w"
  "connectExternalOutputs E w = (r, w') \<Longrightarrow> times w' = times w"
proof -
  show "connectExternalInputChannels E w = (r, w') \<Longrightarrow> times w' = times w"
    by (auto simp: connectExternalInputChannels_def Let_def split: sum.splits if_splits
        elim!: for_range_inv[where P = "\<lambda>v. times v = times w", rotated 2] intro: body_times(1))
  show "connectExternalInputs E n2l w = (r, w') \<Longrightarrow> times w' = times w"
    by (auto simp: connectExternalInputs_def split: sum.splits
        elim!: for_range_inv[where P = "\<lambda>v. times v = times w", rotated 2] intro: body_times(2))
  show "connectInternalInputsAndOutputs w = (r, w') \<Longrightarrow> times w' = times w"
    by (auto simp: connectInternalInputsAndOutputs_def
        elim!: for_range_inv[where P = "\<lambda>v. times v = times w", rotated 2] intro: body_times(3))
  show "connectExternalOutputs E w = (r, w') \<Longrightarrow> times w' = times w"
    by (auto simp: connectExternalOutputs_def split: sum.splits
        elim!: for_range_inv[where P = "\<lambda>v. times v = times w", rotated 2] intro: body_times(4))
qed

lemma wiring_times:
  assumes "connectInputsAndOutputs E w = (r, w')"
  shows "times w' = times w"
proof (cases "name2Location (option_Inputs (option (tr w)))")
  case (Inl e)
  with assms show ?thesis by (simp add: connectInputsAndOutputs_def)
next
  case (Inr n2l)
  obtain r1 w1 where p1: "connectExternalInputChannels E w = (r1, w1)"
    by (cases "connectExternalInputChannels E w")
  obtain r2 w2 where p2: "connectExternalInputs E n2l w1 = (r2, w2)"
    by (cases "connectExternalInputs E n2l w1")
  obtain r3 w3 where p3: "connectInternalInputsAndOutputs w2 = (r3, w3)"
    by (cases "connectInternalInputsAndOutputs w2")
  obtain r4 w4 where p4: "connectExternalOutputs E w3 = (r4, w4)"
    by (cases "connectExternalOutputs E w3")
  note t = phase_times(1)[OF p1] phase_times(2)[OF p2] phase_times(3)[OF p3] phase_times(4)[OF p4]
  from assms Inr p1 p2 p3 p4 have "w' = w1 \<or> w' = w2 \<or> w' = w3 \<or> w' = w4"
    by (auto simp: connectInputsAndOutputs_def and_then_def split: option.splits)
  with t show ?thesis by auto
qed

lemma launch_loop:
  "for_range launch ts w = (r, w') \<Longrightarrow>
     r = None \<and> trace w' = trace w @ map (\<lambda>t. Spawn (Stage t)) ts \<and> times w' = times w \<and>
     Tasks (tr w') = Tasks (tr w)"
  by (induction ts arbitrary: w) (auto simp: launch_def emit_def times_def)

lemma Run_main_AtWait:
  assumes "Run_main E t0 fc w = (AtWait, fc1, w1)"
  shows "fc1 = fc\<lparr>fc_ChannelBufferSize := ChannelBufferSize (option (tr w))\<rparr> \<and>
         (\<exists>wevs. trace w1 = trace w @ Call_GroupTasks # wevs @ map (\<lambda>t. Spawn (Stage t)) (Tasks (tr w1)) \<and>
                 length (filter is_Stage (spawned wevs)) = 0) \<and>
         StartTime (executorStatus (tr w1)) = t0"
proof -
  let ?fc1 = "fc\<lparr>fc_ChannelBufferSize := ChannelBufferSize (option (tr w))\<rparr>"
  from assms have acc: "fc_Id fc = ContextId (option (tr w))"
    by (auto simp: Run_main_def split: if_splits)
  from assms acc obtain tasks where g: "index (GroupTasks E ?fc1) (TaskGroupId (option (tr w))) = Inr tasks"
    by (cases "index (GroupTasks E ?fc1) (TaskGroupId (option (tr w)))") (auto simp: Run_main_def Let_def)
  let ?w3 = "set_StartTime t0 ((emit Call_GroupTasks w)\<lparr>tr := (tr (emit Call_GroupTasks w))
        \<lparr>Tasks := tasks, FlowContext := Some ?fc1\<rparr>\<rparr>)"
  obtain r4 w4 where wi: "connectInputsAndOutputs E ?w3 = (r4, w4)"
    by (cases "connectInputsAndOutputs E ?w3")
  from assms acc g wi have r4: "r4 = None"
    by (auto simp: Run_main_def Let_def split: option.splits prod.splits)
  obtain r5 w5 where la: "for_range launch (Tasks (tr w4)) w4 = (r5, w5)"
    by (cases "for_range launch (Tasks (tr w4)) w4")
  from assms acc g wi r4 la have res: "fc1 = ?fc1" "w1 = w5"
    by (auto simp: Run_main_def Let_def split: option.splits prod.splits)
  let ?res = "connectInputsAndOutputs_events E (option (tr ?w3)) (bufferSize ?w3) (Tasks (tr ?w3))"
  from wiring_abs[OF wi] r4 have ok: "fst ?res = None" and t4: "trace w4 = trace ?w3 @ snd ?res" by auto
  have t3: "trace ?w3 = trace w @ [Call_GroupTasks]" by (simp add: set_StartTime_def emit_def)
  have s3: "times ?w3 = (ReadyTime (executorStatus (tr w)), t0, StopTime (executorStatus (tr w)))"
    by (simp add: times_def set_StartTime_def emit_def)
  from launch_loop[OF la] have t5: "trace w5 = trace w4 @ map (\<lambda>t. Spawn (Stage t)) (Tasks (tr w4))"
    "times w5 = times w4" "Tasks (tr w5) = Tasks (tr w4)" by auto
  have nostage: "length (filter is_Stage (spawned (snd ?res))) = 0"
  proof (cases "Tasks (tr ?w3)")
    case Nil
    with ok show ?thesis
      by (auto simp: connectInputsAndOutputs_events_def connectExternalInputChannels_events_def
          seq_items_fst_snd index_def split: sum.splits)
  next
    case (Cons ft rest)
    with wiring_counts[of E "option (tr ?w3)" "bufferSize ?w3" ft rest] ok show ?thesis by simp
  qed
  have "times w5 = times ?w3" using t5(2) wiring_times[OF wi] by simp
  with s3 have st: "StartTime (executorStatus (tr w5)) = t0" by (simp add: times_def)
  from t3 t4 t5 have "trace w5 = trace w @ Call_GroupTasks # snd ?res @ map (\<lambda>t. Spawn (Stage t)) (Tasks (tr w5))"
    by simp
  with nostage res st show ?thesis by blast
qed

lemma conc_inv_init: "conc_inv t0 (spawned es) (conc_init t0 es)"
  by (simp add: conc_inv_def conc_init_def)

lemma mset_remove_nth:
  "k < length xs \<Longrightarrow> mset (take k xs @ drop (Suc k) xs) + {#xs ! k#} = mset xs"
proof -
  assume "k < length xs"
  then have "xs = take k xs @ xs ! k # drop (Suc k) xs" by (rule id_take_nth_drop)
  then have "mset xs = mset (take k xs @ xs ! k # drop (Suc k) xs)" by simp
  then show ?thesis by simp
qed

lemma conc_inv_step: "conc_inv t0 us c \<Longrightarrow> conc_inv t0 us (step x c)"
proof (cases x)
  case Tick
  assume "conc_inv t0 us c"
  with Tick show ?thesis by (auto simp: conc_inv_def)
next
  case Main
  assume i: "conc_inv t0 us c"
  show ?thesis
  proof (cases "todo c")
    case Nil
    with i Main show ?thesis by (auto simp: conc_inv_def split: option.splits)
  next
    case (Cons e es)
    with i Main show ?thesis by (cases e) (auto simp: conc_inv_def)
  qed
next
  case (Done k)
  assume i: "conc_inv t0 us c"
  show ?thesis
  proof (cases "k < length (live c)")
    case True
    let ?A = "mset (take k (live c)) + mset (drop (Suc k) (live c))"
    have a: "add_mset (live c ! k) ?A = mset (live c)"
      using mset_remove_nth[OF True] by simp
    have "add_mset (live c ! k) (mset (finished c) + ?A + mset (spawned (todo c))) =
          mset (finished c) + add_mset (live c ! k) ?A + mset (spawned (todo c))"
      by simp
    also have "\<dots> = mset (finished c) + mset (live c) + mset (spawned (todo c))"
      by (simp only: a)
    finally have eq: "add_mset (live c ! k) (mset (finished c) + ?A + mset (spawned (todo c))) =
          mset (finished c) + mset (live c) + mset (spawned (todo c))" .
    from i have "\<not> waited c" using True by (auto simp: conc_inv_def)
    with i Done True eq show ?thesis by (auto simp: conc_inv_def)
  next
    case False
    with i Done show ?thesis by simp
  qed
qed

lemma conc_inv_exec: "conc_inv t0 us c \<Longrightarrow> conc_inv t0 us (exec sched c)"
  by (induction sched arbitrary: c) (simp_all add: conc_inv_step)

text \<open>
  \<^verbatim>\<open>Run\<close> can return: from the call of \<^verbatim>\<open>wg.Wait\<close>, the schedule that lets the main
  thread start its units, then lets every unit finish, then lets the main thread go on,
  makes \<^verbatim>\<open>Run\<close> return. So the hypotheses of the next theorem hold of every accepted
  context whose wiring completes.
\<close>

lemma exec_append: "exec (a @ b) c = exec b (exec a c)"
  by (induction a arbitrary: c) simp_all

lemma exec_mains:
  "todo c = es \<Longrightarrow>
     todo (exec (replicate (length es) Main) c) = [] \<and>
     live (exec (replicate (length es) Main) c) = live c @ spawned es \<and>
     waited (exec (replicate (length es) Main) c) = waited c \<and>
     stopTime (exec (replicate (length es) Main) c) = stopTime c \<and>
     clock (exec (replicate (length es) Main) c) = clock c"
proof (induction es arbitrary: c)
  case Nil
  then show ?case by simp
next
  case (Cons e es)
  show ?case
  proof (cases "\<exists>u. e = Spawn u")
    case True
    then obtain u where e: "e = Spawn u" by blast
    let ?c = "c\<lparr>todo := es, live := live c @ [u]\<rparr>"
    have s: "step Main c = ?c" using Cons.prems e by simp
    from Cons.IH[of ?c] show ?thesis using e by (simp add: s del: step.simps)
  next
    case False
    let ?c = "c\<lparr>todo := es\<rparr>"
    have s: "step Main c = ?c" using Cons.prems False by (cases e) simp_all
    have sp: "spawned (e # es) = spawned es" using False by (cases e) simp_all
    from Cons.IH[of ?c] show ?thesis by (simp add: s sp del: step.simps spawned.simps)
  qed
qed

lemma exec_dones:
  "live c = us \<Longrightarrow>
     live (exec (replicate (length us) (Done 0)) c) = [] \<and>
     todo (exec (replicate (length us) (Done 0)) c) = todo c \<and>
     waited (exec (replicate (length us) (Done 0)) c) = waited c \<and>
     stopTime (exec (replicate (length us) (Done 0)) c) = stopTime c \<and>
     clock (exec (replicate (length us) (Done 0)) c) = clock c"
proof (induction us arbitrary: c)
  case Nil
  then show ?case by simp
next
  case (Cons u us)
  let ?c = "c\<lparr>live := us, finished := finished c @ [u]\<rparr>"
  have s: "step (Done 0) c = ?c" using Cons.prems by simp
  from Cons.IH[of ?c] show ?case by (simp add: s del: step.simps)
qed

lemma exec_completes:
  "\<not> waited c \<Longrightarrow> stopTime c = None \<Longrightarrow>
   stopTime (exec (replicate (length (todo c)) Main @
                   replicate (length (live c @ spawned (todo c))) (Done 0) @ [Main, Main]) c) =
     Some (clock c)"
proof -
  assume w: "\<not> waited c" and s: "stopTime c = None"
  let ?c1 = "exec (replicate (length (todo c)) Main) c"
  let ?c2 = "exec (replicate (length (live c @ spawned (todo c))) (Done 0)) ?c1"
  from exec_mains[of c "todo c"] w s
  have 1: "todo ?c1 = []" "live ?c1 = live c @ spawned (todo c)" "\<not> waited ?c1"
      "stopTime ?c1 = None" "clock ?c1 = clock c" by simp_all
  from exec_dones[of ?c1 "live c @ spawned (todo c)"] 1
  have 2: "live ?c2 = []" "todo ?c2 = []" "\<not> waited ?c2" "stopTime ?c2 = None" "clock ?c2 = clock c"
    by simp_all
  have "stopTime (exec [Main, Main] ?c2) = Some (clock c)" using 2 by simp
  then show ?thesis by (simp only: exec_append)
qed

lemma Run_can_return:
  assumes "Run_main E t0 fc w = (AtWait, fc1, w1)"
  shows "\<exists>sched. Run E t0 sched fc w = (Returned, fc1, set_StopTime t0 w1)"
proof -
  let ?es = "drop (Suc (length (trace w))) (trace w1)"
  let ?c = "conc_init t0 ?es"
  let ?sched = "replicate (length (todo ?c)) Main @
                replicate (length (live ?c @ spawned (todo ?c))) (Done 0) @ [Main, Main]"
  have "stopTime (exec ?sched ?c) = Some (clock ?c)"
    by (rule exec_completes) (simp_all add: conc_init_def)
  then have "stopTime (exec ?sched ?c) = Some t0" by (simp add: conc_init_def)
  with assms have "Run E t0 ?sched fc w = (Returned, fc1, set_StopTime t0 w1)"
    by (simp add: Run_def)
  then show ?thesis by blast
qed

text \<open>
  C3: when \<^verbatim>\<open>Run\<close> accepts a context and returns, under any schedule, the start
  timestamp is the time read before anything was wired or launched (every event of the
  wiring and every start of a unit is replayed after it), the stop timestamp was read
  after \<^verbatim>\<open>wg.Wait\<close> returned, at that point the main thread had started every unit
  and every unit registered with the wait group (the adapters and forwarders of the
  wiring and one stage unit for each task) had signalled completion, and the stop
  timestamp is not before the start timestamp.
\<close>

theorem Run_stop_after_all_units:
  assumes accept: "fc_Id fc = ContextId (option (tr w))"
      and ret: "Run E t0 sched fc w = (Returned, fc', w')"
  shows "StartTime (executorStatus (tr w')) = t0 \<and>
         StartTime (executorStatus (tr w')) \<le> StopTime (executorStatus (tr w')) \<and>
         (\<exists>wevs c.
            trace w' = trace w @ Call_GroupTasks # wevs @ map (\<lambda>t. Spawn (Stage t)) (Tasks (tr w')) \<and>
            c = exec sched (conc_init t0 (wevs @ map (\<lambda>t. Spawn (Stage t)) (Tasks (tr w')))) \<and>
            stopTime c = Some (StopTime (executorStatus (tr w'))) \<and>
            waited c \<and> todo c = [] \<and> live c = [] \<and>
            mset (finished c) = mset (spawned wevs) + mset (map Stage (Tasks (tr w'))))"
proof -
  obtain out fc1 w1 where m: "Run_main E t0 fc w = (out, fc1, w1)" by (cases "Run_main E t0 fc w") auto
  have out: "out = AtWait"
  proof (cases out)
    case Returned
    with m accept show ?thesis by (auto simp: Run_main_def Let_def split: sum.splits prod.splits option.splits)
  next
    case (Panicked e)
    with m ret show ?thesis by (simp add: Run_def)
  next
    case AtWait
    then show ?thesis .
  next
    case Blocked
    with m show ?thesis by (auto simp: Run_main_def Let_def split: sum.splits prod.splits option.splits if_splits)
  qed
  from Run_main_AtWait[OF m[unfolded out]] obtain wevs where
    tr1: "trace w1 = trace w @ Call_GroupTasks # wevs @ map (\<lambda>t. Spawn (Stage t)) (Tasks (tr w1))"
    and st: "StartTime (executorStatus (tr w1)) = t0" by blast
  let ?script = "wevs @ map (\<lambda>t. Spawn (Stage t)) (Tasks (tr w1))"
  let ?c = "exec sched (conc_init t0 ?script)"
  have dr: "drop (Suc (length (trace w))) (trace w1) = ?script" using tr1 by simp
  from ret m out dr obtain t1 where stop: "stopTime ?c = Some t1" and w': "w' = set_StopTime t1 w1"
    by (auto simp: Run_def split: option.splits)
  have inv: "conc_inv t0 (spawned ?script) ?c"
    by (rule conc_inv_exec) (rule conc_inv_init)
  with stop have fin: "waited ?c" "t0 \<le> t1" "todo ?c = []" "live ?c = []"
      "mset (finished ?c) = mset (spawned ?script)"
    by (auto simp: conc_inv_def)
  have sp: "spawned (map (\<lambda>t. Spawn (Stage t)) ts) = map Stage ts" for ts
    by (induction ts) simp_all
  have w'1: "trace w' = trace w1" "Tasks (tr w') = Tasks (tr w1)"
      "StartTime (executorStatus (tr w')) = t0" "StopTime (executorStatus (tr w')) = t1"
    using w' st by (simp_all add: set_StopTime_def)
  have ex: "trace w' = trace w @ Call_GroupTasks # wevs @ map (\<lambda>t. Spawn (Stage t)) (Tasks (tr w')) \<and>
            ?c = exec sched (conc_init t0 (wevs @ map (\<lambda>t. Spawn (Stage t)) (Tasks (tr w')))) \<and>
            stopTime ?c = Some (StopTime (executorStatus (tr w'))) \<and>
            waited ?c \<and> todo ?c = [] \<and> live ?c = [] \<and>
            mset (finished ?c) = mset (spawned wevs) + mset (map Stage (Tasks (tr w')))"
    using w'1 tr1 stop fin by (simp add: spawned_append sp)
  have "\<exists>wevs c.
            trace w' = trace w @ Call_GroupTasks # wevs @ map (\<lambda>t. Spawn (Stage t)) (Tasks (tr w')) \<and>
            c = exec sched (conc_init t0 (wevs @ map (\<lambda>t. Spawn (Stage t)) (Tasks (tr w')))) \<and>
            stopTime c = Some (StopTime (executorStatus (tr w'))) \<and>
            waited c \<and> todo c = [] \<and> live c = [] \<and>
            mset (finished c) = mset (spawned wevs) + mset (map Stage (Tasks (tr w')))"
    by (rule exI[of _ wevs], rule exI[of _ ?c]) (rule ex)
  with w'1 fin(2) show ?thesis by simp
qed

lemmas run_defs = Run_main_def connectInputsAndOutputs_def and_then_def
  connectExternalInputChannels_def connectExternalInputs_def connectInternalInputsAndOutputs_def
  connectExternalOutputs_def connectExternalInputChannels_body_def connectExternalInputs_body_def
  connectInternalInputsAndOutputs_body_def connectExternalOutputs_body_def launch_def
  emit_def ConnectRawReadChannelToTyped_def ConnectTypedWriteChannelToRaw_def
  append_InputChannelStatus_def append_InputChan_def set_OutputChannelStatus_def
  set_StartTime_def set_StopTime_def bufferSize_def name2Location_def index_def lookup_def
  elems_def shardChanName_def inputChanName_def enumerate_eq_zip Let_def

lemma ex_main: "fst (Run_main ex_env 5 ex_fc (ex_world ex_option)) = AtWait"
  by (simp add: run_defs ex_defs upt_rec)

lemma ex_script:
  "drop (Suc (length (trace (ex_world ex_option)))) (trace (snd (snd (Run_main ex_env 5 ex_fc (ex_world ex_option))))) =
     [Call_GetDirectReadChannel ''job-s0'' [] 16,
      Spawn (DecodeAdapter 1 (Chan 10) ''int''),
      Call_SetupReadingChans (ex_shard ''s1'' 1),
      Spawn (Forwarder (ex_shard ''s1'' 1) (ex_shard ''s1'' 1) 0),
      Call_SetupReadingChans (ex_shard ''s2'' 2),
      Spawn (Forwarder (ex_shard ''s2'' 2) (ex_shard ''s2'' 2) 1),
      Call_GetLocalSendChannel ''job-s3'',
      Spawn (EncodeAdapter (Chan 3) 3),
      Spawn (Stage (ex_tasks ! 0)), Spawn (Stage (ex_tasks ! 1)), Spawn (Stage (ex_tasks ! 2))]"
  by (simp add: run_defs ex_defs upt_rec)

lemma ex_exec:
  "stopTime (exec ex_sched (conc_init 5
     [Call_GetDirectReadChannel ''job-s0'' [] 16,
      Spawn (DecodeAdapter 1 (Chan 10) ''int''),
      Call_SetupReadingChans (ex_shard ''s1'' 1),
      Spawn (Forwarder (ex_shard ''s1'' 1) (ex_shard ''s1'' 1) 0),
      Call_SetupReadingChans (ex_shard ''s2'' 2),
      Spawn (Forwarder (ex_shard ''s2'' 2) (ex_shard ''s2'' 2) 1),
      Call_GetLocalSendChannel ''job-s3'',
      Spawn (EncodeAdapter (Chan 3) 3),
      Spawn (Stage (ex_tasks ! 0)), Spawn (Stage (ex_tasks ! 1)), Spawn (Stage (ex_tasks ! 2))])) = Some 7"
  by (simp add: ex_sched_def conc_init_def)


lemma ex_Run:
  "\<exists>fc1 w1. Run ex_env 5 ex_sched ex_fc (ex_world ex_option) = (Returned, fc1, set_StopTime 7 w1)"
proof -
  let ?m = "Run_main ex_env 5 ex_fc (ex_world ex_option)"
  obtain out fc1 w1 where m: "?m = (out, fc1, w1)" by (cases ?m) auto
  with ex_main have out: "out = AtWait" by simp
  from ex_script m have sc: "drop (Suc (length (trace (ex_world ex_option)))) (trace w1) =
     [Call_GetDirectReadChannel ''job-s0'' [] 16,
      Spawn (DecodeAdapter 1 (Chan 10) ''int''),
      Call_SetupReadingChans (ex_shard ''s1'' 1),
      Spawn (Forwarder (ex_shard ''s1'' 1) (ex_shard ''s1'' 1) 0),
      Call_SetupReadingChans (ex_shard ''s2'' 2),
      Spawn (Forwarder (ex_shard ''s2'' 2) (ex_shard ''s2'' 2) 1),
      Call_GetLocalSendChannel ''job-s3'',
      Spawn (EncodeAdapter (Chan 3) 3),
      Spawn (Stage (ex_tasks ! 0)), Spawn (Stage (ex_tasks ! 1)), Spawn (Stage (ex_tasks ! 2))]"
    by simp
  have "Run ex_env 5 ex_sched ex_fc (ex_world ex_option) = (Returned, fc1, set_StopTime 7 w1)"
    by (simp only: Run_def m out prod.case outcome.case sc ex_exec option.case)
  then show ?thesis by blast
qed

theorem Run_stop_after_all_units_witness:
  "fst (Run ex_env 5 ex_sched ex_fc (ex_world ex_option)) = Returned \<and>
   StartTime (executorStatus (tr (snd (snd (Run ex_env 5 ex_sched ex_fc (ex_world ex_option)))))) = 5 \<and>
   StopTime (executorStatus (tr (snd (snd (Run ex_env 5 ex_sched ex_fc (ex_world ex_option)))))) = 7"
proof -
  have acc: "fc_Id ex_fc = ContextId (option (tr (ex_world ex_option)))"
    by (simp add: ex_defs)
  from ex_Run obtain fc1 w1 where
    r: "Run ex_env 5 ex_sched ex_fc (ex_world ex_option) = (Returned, fc1, set_StopTime 7 w1)"
    by blast
  have stop: "StopTime (executorStatus (tr (set_StopTime 7 w1))) = 7"
    by (simp add: set_StopTime_def)
  from Run_stop_after_all_units[OF acc r] stop show ?thesis
    by (simp add: r)
qed

subsection \<open>The forwarder\<close>

lemma hop_inv_init: "hop_inv hop_init"
  by (simp add: hop_inv_def hop_init_def held_def)

lemma hop_inv_forward: "hop_inv h \<Longrightarrow> hop_inv (forward h)"
  by (cases "fwd h"; cases "buf (up h)")
     (auto simp: hop_inv_def forward_def held_def SendForRead_def CloseRead_def)

lemma hop_inv_step: "hop_inv h \<Longrightarrow> hop_inv (hop_step m h)"
proof (cases m)
  case (Produce v)
  assume "hop_inv h"
  with Produce show ?thesis by (auto simp: hop_inv_def held_def)
next
  case CloseUp
  assume "hop_inv h"
  with CloseUp show ?thesis by (auto simp: hop_inv_def held_def)
next
  case Forward
  assume "hop_inv h"
  with Forward show ?thesis by (simp add: hop_inv_forward)
next
  case Consume
  assume "hop_inv h"
  with Consume show ?thesis
    by (cases "buf (down h)") (auto simp: hop_inv_def held_def)
qed

lemma hop_inv_run: "hop_inv h \<Longrightarrow> hop_inv (hop_run ms h)"
  by (induction ms arbitrary: h) (simp_all add: hop_inv_step)

lemma forward_remaining:
  "closed (up h) \<Longrightarrow> fwd h \<noteq> Exited \<Longrightarrow>
     Suc (remaining (forward h)) = remaining h \<and> closed (up (forward h))"
  by (cases "fwd h"; cases "buf (up h)")
     (auto simp: remaining_def forward_def SendForRead_def CloseRead_def)

lemma forward_Exited: "fwd h = Exited \<Longrightarrow> forward h = h"
  by (simp add: forward_def)

lemma drain:
  "closed (up h) \<Longrightarrow> remaining h \<le> n \<Longrightarrow> fwd (hop_run (replicate n Forward) h) = Exited"
proof (induction n arbitrary: h)
  case 0
  then show ?case by (cases "fwd h") (auto simp: remaining_def)
next
  case (Suc n)
  show ?case
  proof (cases "fwd h = Exited")
    case True
    then have "forward h = h" by (rule forward_Exited)
    moreover from True have "remaining h \<le> n" by (simp add: remaining_def)
    ultimately show ?thesis using Suc.IH[of h] Suc.prems(1) by simp
  next
    case False
    from forward_remaining[OF Suc.prems(1) False] Suc.prems(2)
    have "closed (up (forward h))" "remaining (forward h) \<le> n" by auto
    from Suc.IH[OF this] show ?thesis by simp
  qed
qed

lemma remaining_bound: "remaining h \<le> 2 * length (buf (up h)) + 2"
  by (cases "fwd h") (auto simp: remaining_def)

lemma forward_frame:
  "sent (forward h) = sent h \<and> seen (forward h) = seen h \<and> seen_closed (forward h) = seen_closed h"
  by (cases "fwd h"; cases "buf (up h)")
     (auto simp: forward_def SendForRead_def CloseRead_def)

lemma forwards_frame:
  "sent (hop_run (replicate n Forward) h) = sent h \<and> seen (hop_run (replicate n Forward) h) = seen h"
  by (induction n arbitrary: h) (simp_all add: forward_frame)

lemma run_items_spawned:
  assumes "fst (run_items f xs) = None"
      and "\<And>x. x \<in> set xs \<Longrightarrow> fst (f x) = None \<Longrightarrow> spawned (snd (f x)) = g x"
  shows "spawned (snd (run_items f xs)) = concat (map g xs)"
  using assms
proof (induction xs)
  case Nil
  then show ?case by simp
next
  case (Cons x xs)
  from Cons.prems(1) have x: "fst (f x) = None" and r: "fst (run_items f xs) = None"
    by (auto simp: run_items_fst_snd simp del: run_items.simps(2) split: if_splits)
  from Cons.IH[OF r] Cons.prems(2) have "spawned (snd (run_items f xs)) = concat (map g xs)"
    by simp
  with x Cons.prems(2)[of x] show ?case
    by (simp add: run_items_fst_snd spawned_append del: run_items.simps(2))
qed

lemma item3_spawned:
  "fst (connectInternalInputsAndOutputs_item ts it) = None \<Longrightarrow>
   spawned (snd (connectInternalInputsAndOutputs_item ts it)) =
     (if int (fst it) = int (length ts) - 1 then [] else [forwarder_of ts (fst it)])"
  by (auto simp: connectInternalInputsAndOutputs_item_def forwarder_of_def index_def Let_def nat_add_distrib
      split: sum.splits if_splits)

lemma events3_spawned:
  assumes "fst (connectInternalInputsAndOutputs_events ts) = None"
  shows "spawned (snd (connectInternalInputsAndOutputs_events ts)) = map (forwarder_of ts) [0..<length ts - 1]"
proof (cases ts)
  case Nil
  then show ?thesis by (simp add: connectInternalInputsAndOutputs_events_def)
next
  case (Cons t rest)
  let ?g = "\<lambda>i. if int i = int (length ts) - 1 then [] else [forwarder_of ts i]"
  let ?n = "length rest"
  from assms have "spawned (snd (connectInternalInputsAndOutputs_events ts)) =
      concat (map (\<lambda>x. ?g (fst x)) (enumerate 0 ts))"
    unfolding connectInternalInputsAndOutputs_events_def
    by (rule run_items_spawned) (rule item3_spawned)
  also have "map (\<lambda>x. ?g (fst x)) (enumerate 0 ts) = map ?g [0..<length ts]"
    by (rule map_fst_enumerate)
  also have "[0..<length ts] = [0..<?n] @ [?n]" using Cons by simp
  also have "concat (map ?g ([0..<?n] @ [?n])) = concat (map ?g [0..<?n])" using Cons by simp
  also have "map ?g [0..<?n] = map (\<lambda>i. [forwarder_of ts i]) [0..<?n]"
    using Cons by (intro map_cong) auto
  also have "concat \<dots> = map (forwarder_of ts) [0..<?n]" by (induction ?n) simp_all
  finally show ?thesis using Cons by simp
qed

lemma internal_forwarders:
  assumes "connectInternalInputsAndOutputs w = (None, w')"
  shows "spawned (drop (length (trace w)) (trace w')) =
           map (forwarder_of (Tasks (tr w))) [0..<length (Tasks (tr w)) - 1]"
proof -
  have f0: "frame (option (tr w)) (bufferSize w) (Tasks (tr w)) w" by (rule frame_refl)
  from phase3_abs[OF f0 assms]
  have "fst (connectInternalInputsAndOutputs_events (Tasks (tr w))) = None"
       "trace w' = trace w @ snd (connectInternalInputsAndOutputs_events (Tasks (tr w)))" by auto
  with events3_spawned[of "Tasks (tr w)"] show ?thesis by simp
qed

text \<open>
  C1: a completed internal phase has started exactly one forwarder for every adjacent
  pair of stages \<open>(i, i+1)\<close>, from the first output shard of stage \<open>i\<close> to the first
  input shard of stage \<open>i+1\<close>. In every state that a hop reaches, under any
  interleaving of the two stages and the forwarder: the values stage \<open>i\<close> has sent
  are, in order and each once, those stage \<open>i+1\<close> has received, then those waiting
  in its input channel, then the one in the forwarder's hand, then those still in the
  output channel; stage \<open>i+1\<close> observes the end of its input only after it has
  received every value sent, the upstream channel being closed; the read side is closed
  at most once, never sent to after the close, and closed exactly when the forwarder has
  exited, which it does only on a closed and drained upstream channel. And once the
  upstream channel is closed, the forwarder, given its steps, relays every value left
  and closes the read side exactly once.
\<close>

theorem forwarder_relays_in_order:
  fixes ms :: "'v move list"
  assumes wiring: "connectInternalInputsAndOutputs w = (None, w')"
      and run: "h = hop_run ms hop_init"
  shows "spawned (drop (length (trace w)) (trace w')) =
           map (\<lambda>i. Forwarder (Outputs (Tasks (tr w) ! i) ! 0)
                               (elems (Inputs (Tasks (tr w) ! Suc i)) ! 0) i)
             [0..<length (Tasks (tr w)) - 1] \<and>
         sent h = seen h @ buf (down h) @ held h @ buf (up h) \<and>
         (seen_closed h \<longrightarrow> seen h = sent h \<and> closed (up h) \<and> fwd h = Exited) \<and>
         closes h \<le> 1 \<and> \<not> fault h \<and>
         (closes h = 1 \<longleftrightarrow> fwd h = Exited) \<and>
         (closed (down h) \<longleftrightarrow> fwd h = Exited) \<and>
         (fwd h = Exited \<longrightarrow> closed (up h) \<and> buf (up h) = [] \<and> sent h = seen h @ buf (down h)) \<and>
         (closed (up h) \<longrightarrow>
            fwd (hop_run (replicate (2 * length (buf (up h)) + 2) Forward) h) = Exited \<and>
            closes (hop_run (replicate (2 * length (buf (up h)) + 2) Forward) h) = 1 \<and>
            \<not> fault (hop_run (replicate (2 * length (buf (up h)) + 2) Forward) h) \<and>
            seen h @ buf (down (hop_run (replicate (2 * length (buf (up h)) + 2) Forward) h)) = sent h)"
proof -
  have fw: "spawned (drop (length (trace w)) (trace w')) =
           map (\<lambda>i. Forwarder (Outputs (Tasks (tr w) ! i) ! 0)
                               (elems (Inputs (Tasks (tr w) ! Suc i)) ! 0) i)
             [0..<length (Tasks (tr w)) - 1]"
  proof -
    have "forwarder_of (Tasks (tr w)) = (\<lambda>i. Forwarder (Outputs (Tasks (tr w) ! i) ! 0)
                               (elems (Inputs (Tasks (tr w) ! Suc i)) ! 0) i)"
      by (rule ext) (simp add: forwarder_of_def)
    with internal_forwarders[OF wiring] show ?thesis by simp
  qed
  have inv: "hop_inv h" unfolding run by (rule hop_inv_run) (rule hop_inv_init)
  let ?h' = "hop_run (replicate (2 * length (buf (up h)) + 2) Forward) h"
  have inv': "hop_inv ?h'" using inv by (rule hop_inv_run)
  have live: "fwd ?h' = Exited \<and> closes ?h' = 1 \<and> \<not> fault ?h' \<and> seen h @ buf (down ?h') = sent h"
    if c: "closed (up h)"
  proof -
    have e: "fwd ?h' = Exited" using c remaining_bound by (rule drain)
    with inv' have "closes ?h' = 1" "\<not> fault ?h'" "sent ?h' = seen ?h' @ buf (down ?h')"
      by (auto simp: hop_inv_def held_def)
    with e forwards_frame[of "2 * length (buf (up h)) + 2" h] show ?thesis by simp
  qed
  have hop: "sent h = seen h @ buf (down h) @ held h @ buf (up h) \<and>
         (seen_closed h \<longrightarrow> seen h = sent h \<and> closed (up h) \<and> fwd h = Exited) \<and>
         closes h \<le> 1 \<and> \<not> fault h \<and>
         (closes h = 1 \<longleftrightarrow> fwd h = Exited) \<and>
         (closed (down h) \<longleftrightarrow> fwd h = Exited) \<and>
         (fwd h = Exited \<longrightarrow> closed (up h) \<and> buf (up h) = [] \<and> sent h = seen h @ buf (down h))"
    using inv by (auto simp: hop_inv_def held_def)
  from fw hop live show ?thesis by blast
qed

lemma ex_hop: "sent (hop_run ex_moves hop_init) = [1, 2] \<and> seen_closed (hop_run ex_moves hop_init)"
  by code_simp

lemma ex_internal: "fst (connectInternalInputsAndOutputs ex_wired) = None"
  by (simp add: connectInternalInputsAndOutputs_def connectInternalInputsAndOutputs_body_def
      ex_defs index_def elems_def emit_def Let_def enumerate_eq_zip upt_rec)

theorem forwarder_relays_in_order_witness:
  "spawned (trace (snd (connectInternalInputsAndOutputs ex_wired))) =
     [Forwarder (ex_shard ''s1'' 1) (ex_shard ''s1'' 1) 0,
      Forwarder (ex_shard ''s2'' 2) (ex_shard ''s2'' 2) 1] \<and>
   sent (hop_run ex_moves hop_init) = [1, 2] \<and>
   seen (hop_run ex_moves hop_init) = [1, 2] \<and>
   seen_closed (hop_run ex_moves hop_init) \<and>
   closes (hop_run ex_moves hop_init) = 1 \<and>
   fwd (hop_run ex_moves hop_init) = Exited"
proof -
  let ?p = "connectInternalInputsAndOutputs ex_wired"
  have w: "?p = (None, snd ?p)" using ex_internal by (cases ?p) auto
  have t0: "trace ex_wired = []" "Tasks (tr ex_wired) = ex_tasks"
    by (simp_all add: ex_wired_def NewTaskRunner_def)
  have fw: "map (\<lambda>i. Forwarder (Outputs (ex_tasks ! i) ! 0) (elems (Inputs (ex_tasks ! Suc i)) ! 0) i)
               [0..<length ex_tasks - 1] =
     [Forwarder (ex_shard ''s1'' 1) (ex_shard ''s1'' 1) 0,
      Forwarder (ex_shard ''s2'' 2) (ex_shard ''s2'' 2) 1]"
    by (simp add: ex_tasks_def elems_def upt_rec)
  define H where "H = hop_run ex_moves hop_init"
  note T = forwarder_relays_in_order[OF w H_def]
  have 1: "spawned (trace (snd ?p)) =
     [Forwarder (ex_shard ''s1'' 1) (ex_shard ''s1'' 1) 0,
      Forwarder (ex_shard ''s2'' 2) (ex_shard ''s2'' 2) 1]"
    using conjunct1[OF T] t0 fw by simp
  have sc: "seen_closed H" and se: "sent H = [1, 2]" using ex_hop by (simp_all add: H_def)
  have 3: "seen_closed H \<longrightarrow> seen H = sent H \<and> closed (up H) \<and> fwd H = Exited"
    using T by blast
  have 4: "closes H = 1 \<longleftrightarrow> fwd H = Exited"
    using T by blast
  from 1 sc se 3 4 show ?thesis unfolding H_def by simp
qed

end
